theory Spec2Isabelle
  imports Complex_Main "HOL-Library.Sublist"
begin

section \<open>The annotated expression matrix\<close>

text \<open>
  The notebook \<^verbatim>\<open>Analysis.ipynb\<close> threads one AnnData object through its stages.
  The object is a numeric matrix (cells by genes) with a data frame of per-cell
  annotations (\<^verbatim>\<open>obs\<close>) and one of per-gene annotations (\<^verbatim>\<open>var\<close>). A data frame is
  column oriented: an index and named columns, each column absent (\<open>None\<close>) until some
  stage assigns it. Only the columns that the notebook assigns or reads are tracked.

  Matrix entries and derived scalars are floating-point numbers in Python. They are
  modelled by exact rationals; the special values that a division by zero produces are
  kept, since a comparison treats them differently (\<^verbatim>\<open>nan < 10\<close> is false,
  \<^verbatim>\<open>-inf < 10\<close> is true).
\<close>

datatype fval = NaN | NegInf | Fin rat | PosInf

text \<open>
  What a cell of the notebook can raise. The first three arise in the code modelled
  here; the others stand for what reading the files, the plotting calls and the
  numerical library stages may raise.
\<close>

datatype error =
    NameError string
  | AttributeError string
  | KeyError string
  | IndexError string
  | IOError string
  | LibraryError string

record obs_frame =
  obs_names :: "string list"
  sample :: "string list option"
  batch :: "string list option"
  n_genes :: "nat list option"
  n_counts :: "rat list option"
  n_genes_by_counts :: "nat list option"
  total_counts :: "rat list option"
  pct_counts_mt :: "fval list option"
  pct_counts_ribo :: "fval list option"

record var_frame =
  var_names :: "string list"
  n_cells :: "nat list option"
  mt :: "bool list option"
  ribo :: "bool list option"

record adata =
  obs :: obs_frame
  var :: var_frame
  X :: "rat list list"

definition n_obs :: "adata \<Rightarrow> nat" where
  "n_obs a = length (obs_names (obs a))"

definition n_vars :: "adata \<Rightarrow> nat" where
  "n_vars a = length (var_names (var a))"

text \<open>
  The shape invariant that every AnnData object satisfies by construction: one matrix
  row per cell, one entry per gene in each row, and every present column as long as
  its index.
\<close>

definition col_len :: "nat \<Rightarrow> 'a list option \<Rightarrow> bool" where
  "col_len n c = (case c of None \<Rightarrow> True | Some xs \<Rightarrow> length xs = n)"

definition wf_adata :: "adata \<Rightarrow> bool" where
  "wf_adata a =
     (length (X a) = n_obs a \<and>
      list_all (\<lambda>row. length row = n_vars a) (X a) \<and>
      col_len (n_obs a) (sample (obs a)) \<and>
      col_len (n_obs a) (batch (obs a)) \<and>
      col_len (n_obs a) (n_genes (obs a)) \<and>
      col_len (n_obs a) (n_counts (obs a)) \<and>
      col_len (n_obs a) (n_genes_by_counts (obs a)) \<and>
      col_len (n_obs a) (total_counts (obs a)) \<and>
      col_len (n_obs a) (pct_counts_mt (obs a)) \<and>
      col_len (n_obs a) (pct_counts_ribo (obs a)) \<and>
      col_len (n_vars a) (n_cells (var a)) \<and>
      col_len (n_vars a) (mt (var a)) \<and>
      col_len (n_vars a) (ribo (var a)))"

subsection \<open>Boolean-mask indexing\<close>

text \<open>
  \<^verbatim>\<open>adata[mask, :]\<close> keeps the rows whose mask entry is true, in their order, in the
  matrix, in the index and in every column of \<^verbatim>\<open>obs\<close>; \<^verbatim>\<open>var\<close> is shared. The masks of
  the notebook are computed from a column of the same object, so they have one entry
  per row.
\<close>

definition select :: "bool list \<Rightarrow> 'a list \<Rightarrow> 'a list" where
  "select msk xs = map snd (filter fst (zip msk xs))"

definition subset_obs_frame :: "bool list \<Rightarrow> obs_frame \<Rightarrow> obs_frame" where
  "subset_obs_frame msk df =
     \<lparr>obs_names = select msk (obs_names df),
      sample = map_option (select msk) (sample df),
      batch = map_option (select msk) (batch df),
      n_genes = map_option (select msk) (n_genes df),
      n_counts = map_option (select msk) (n_counts df),
      n_genes_by_counts = map_option (select msk) (n_genes_by_counts df),
      total_counts = map_option (select msk) (total_counts df),
      pct_counts_mt = map_option (select msk) (pct_counts_mt df),
      pct_counts_ribo = map_option (select msk) (pct_counts_ribo df)\<rparr>"

definition subset_var_frame :: "bool list \<Rightarrow> var_frame \<Rightarrow> var_frame" where
  "subset_var_frame msk df =
     \<lparr>var_names = select msk (var_names df),
      n_cells = map_option (select msk) (n_cells df),
      mt = map_option (select msk) (mt df),
      ribo = map_option (select msk) (ribo df)\<rparr>"

definition subset_obs :: "bool list \<Rightarrow> adata \<Rightarrow> adata" where
  "subset_obs msk a =
     \<lparr>obs = subset_obs_frame msk (obs a), var = var a, X = select msk (X a)\<rparr>"

definition subset_var :: "bool list \<Rightarrow> adata \<Rightarrow> adata" where
  "subset_var msk a =
     \<lparr>obs = obs a, var = subset_var_frame msk (var a), X = map (select msk) (X a)\<rparr>"

section \<open>Library stages called by BasicFiltering\<close>

text \<open>
  Modelled from the spec: \<^verbatim>\<open>sc.pp.filter_genes\<close> is a scanpy call whose body is not in
  the repository. Spec 4.2 step 1: drop genes expressed in fewer than a configured
  minimum number of cells. A gene is expressed in a cell when its entry is positive;
  the count is stored in \<^verbatim>\<open>var['n_cells']\<close> before the genes are subset. Gene \<open>j\<close> is
  entry \<open>j\<close> of each row; every row of an AnnData matrix has one entry per gene.
\<close>

definition filter_genes :: "nat \<Rightarrow> adata \<Rightarrow> adata" where
  "filter_genes min_cells a =
     (let number = map (\<lambda>j. length (filter (\<lambda>row. 0 < row ! j) (X a))) [0..<n_vars a];
          gene_subset = map (\<lambda>n. min_cells \<le> n) number
      in subset_var gene_subset (a\<lparr>var := (var a)\<lparr>n_cells := Some number\<rparr>\<rparr>))"

text \<open>
  Modelled from the spec: \<^verbatim>\<open>sc.pp.filter_cells\<close> is a scanpy call whose body is not in
  the repository. Spec 4.2 step 2: drop cells expressing fewer than a configured
  minimum number of genes. The count is stored in \<^verbatim>\<open>obs['n_genes']\<close> before the cells
  are subset.
\<close>

definition filter_cells :: "nat \<Rightarrow> adata \<Rightarrow> adata" where
  "filter_cells min_genes a =
     (let number = map (\<lambda>row. length (filter (\<lambda>x. 0 < x) row)) (X a);
          cell_subset = map (\<lambda>n. min_genes \<le> n) number
      in subset_obs cell_subset (a\<lparr>obs := (obs a)\<lparr>n_genes := Some number\<rparr>\<rparr>))"

text \<open>Float division and scaling to a percentage, as numpy computes them.\<close>

definition fdiv :: "rat \<Rightarrow> rat \<Rightarrow> fval" where
  "fdiv x y =
     (if y \<noteq> 0 then Fin (x / y)
      else if 0 < x then PosInf else if x < 0 then NegInf else NaN)"

fun fscale :: "fval \<Rightarrow> rat \<Rightarrow> fval" where
  "fscale (Fin q) k = Fin (q * k)"
| "fscale v k = v"

fun flt :: "fval \<Rightarrow> rat \<Rightarrow> bool" where
  "flt NaN t = False"
| "flt NegInf t = True"
| "flt (Fin q) t = (q < t)"
| "flt PosInf t = False"

definition pct_counts :: "bool list \<Rightarrow> rat list \<Rightarrow> fval" where
  "pct_counts flags row = fscale (fdiv (sum_list (select flags row)) (sum_list row)) 100"

definition count_nonzero :: "rat list \<Rightarrow> nat" where
  "count_nonzero row = length (filter (\<lambda>x. x \<noteq> 0) row)"

text \<open>
  Modelled from the spec: \<^verbatim>\<open>sc.pp.calculate_qc_metrics\<close> is a scanpy call whose body is
  not in the repository. Spec 4.2 step 3: per-cell gene count, total count, and the
  percentage of counts from the genes flagged mitochondrial and ribosomal. The call
  reads the flag columns \<^verbatim>\<open>var['mt']\<close> and \<^verbatim>\<open>var['ribo']\<close> named in \<^verbatim>\<open>qc_vars\<close>.
\<close>

definition calculate_qc_metrics :: "adata \<Rightarrow> error + adata" where
  "calculate_qc_metrics a =
     (case mt (var a) of
        None \<Rightarrow> Inl (KeyError ''mt'')
      | Some mt_flags \<Rightarrow>
         (case ribo (var a) of
            None \<Rightarrow> Inl (KeyError ''ribo'')
          | Some ribo_flags \<Rightarrow>
              Inr (a\<lparr>obs := (obs a)
                    \<lparr>n_genes_by_counts := Some (map count_nonzero (X a)),
                     total_counts := Some (map sum_list (X a)),
                     pct_counts_mt := Some (map (pct_counts mt_flags) (X a)),
                     pct_counts_ribo := Some (map (pct_counts ribo_flags) (X a))\<rparr>\<rparr>)))"

text \<open>
  Modelled from the spec: \<^verbatim>\<open>sc.pp.normalize_per_cell\<close> is a scanpy call whose body is
  not in the repository. Spec 4.3 step 1: per-cell count normalization to a fixed
  total. The library first stores each row sum in \<^verbatim>\<open>obs['n_counts']\<close> and drops the cells
  whose sum is below its default \<^verbatim>\<open>min_counts=1\<close>, then divides each row by
  (row sum / target), a zero sum counting as one. The target is not zero: the notebook
  passes 1000.
\<close>

definition normalize_row :: "rat \<Rightarrow> rat list \<Rightarrow> rat list" where
  "normalize_row counts_per_cell_after row =
     (let s = sum_list row;
          counts_per_cell = (if s = 0 then s + 1 else s) / counts_per_cell_after
      in map (\<lambda>x. x / counts_per_cell) row)"

definition normalize_per_cell :: "rat \<Rightarrow> adata \<Rightarrow> adata" where
  "normalize_per_cell counts_per_cell_after a =
     (let counts_per_cell = map sum_list (X a);
          cell_subset = map (\<lambda>s. 1 \<le> s) counts_per_cell;
          a1 = subset_obs cell_subset (a\<lparr>obs := (obs a)\<lparr>n_counts := Some counts_per_cell\<rparr>\<rparr>)
      in a1\<lparr>X := map (normalize_row counts_per_cell_after) (X a1)\<rparr>)"

section \<open>BasicFiltering\<close>

text \<open>
  The function calls two plotting routines and four numerical stages of scanpy whose
  bodies are not in the repository and whose results on floating-point data are not
  modelled. They enter as the fields of \<open>library\<close>, each with the arguments the
  notebook passes; each may raise. A plotting call returns nothing and leaves the
  matrix as it is.
\<close>

record library =
  pl_highest_expr_genes :: "nat \<Rightarrow> adata \<Rightarrow> error + unit"
  pl_violin :: "string list \<Rightarrow> adata \<Rightarrow> error + unit"
  pp_log1p :: "adata \<Rightarrow> error + adata"
  pp_highly_variable_genes :: "rat \<Rightarrow> rat \<Rightarrow> rat \<Rightarrow> adata \<Rightarrow> error + adata"
  pp_regress_out :: "string list \<Rightarrow> adata \<Rightarrow> error + adata"
  pp_scale :: "adata \<Rightarrow> error + adata"

text \<open>
  Lines 96 to 121 of the notebook, in order. Prints have no effect on the object. The
  three masks compare a column computed by \<^verbatim>\<open>calculate_qc_metrics\<close> with a literal;
  reading a column that is absent raises.
\<close>

definition set_mt_ribo :: "adata \<Rightarrow> adata" where
  "set_mt_ribo a =
     a\<lparr>var := (var a)
        \<lparr>mt := Some (map (\<lambda>g. prefix ''mt-'' g) (var_names (var a))),
         ribo := Some (map (\<lambda>g. prefix ''Rps'' g \<or> prefix ''Rpl'' g) (var_names (var a)))\<rparr>\<rparr>"

definition drop_high_genes :: "adata \<Rightarrow> error + adata" where
  "drop_high_genes a =
     (case n_genes_by_counts (obs a) of
        None \<Rightarrow> Inl (AttributeError ''n_genes_by_counts'')
      | Some col \<Rightarrow> Inr (subset_obs (map (\<lambda>n. n < 5000) col) a))"

definition drop_low_genes :: "adata \<Rightarrow> error + adata" where
  "drop_low_genes a =
     (case n_genes_by_counts (obs a) of
        None \<Rightarrow> Inl (AttributeError ''n_genes_by_counts'')
      | Some col \<Rightarrow> Inr (subset_obs (map (\<lambda>n. 200 < n) col) a))"

definition drop_high_mt :: "adata \<Rightarrow> error + adata" where
  "drop_high_mt a =
     (case pct_counts_mt (obs a) of
        None \<Rightarrow> Inl (AttributeError ''pct_counts_mt'')
      | Some col \<Rightarrow> Inr (subset_obs (map (\<lambda>p. flt p 10) col) a))"

definition then_do :: "error + 'a \<Rightarrow> ('a \<Rightarrow> error + 'b) \<Rightarrow> error + 'b" where
  "then_do r f = (case r of Inl e \<Rightarrow> Inl e | Inr v \<Rightarrow> f v)"

definition violin_keys :: "string list" where
  "violin_keys = [''n_genes_by_counts'', ''total_counts'', ''pct_counts_mt'', ''pct_counts_ribo'']"

definition BasicFiltering_qc :: "library \<Rightarrow> adata \<Rightarrow> error + adata" where
  "BasicFiltering_qc lib adata0 =
     then_do (pl_highest_expr_genes lib 20 adata0) (\<lambda>_.
     then_do (calculate_qc_metrics (set_mt_ribo (filter_cells 200 (filter_genes 3 adata0)))) (\<lambda>a.
     then_do (pl_violin lib violin_keys a) (\<lambda>_.
     then_do (drop_high_genes a) (\<lambda>a.
     then_do (drop_low_genes a) drop_high_mt))))"

text \<open>
  The rest of the function: normalization (line 125), then \<^verbatim>\<open>log1p\<close>,
  \<^verbatim>\<open>highly_variable_genes\<close>, \<^verbatim>\<open>regress_out\<close> and \<^verbatim>\<open>scale\<close> (lines 126 to 134) with the
  arguments of the source.
\<close>

definition regress_keys :: "string list" where
  "regress_keys = [''total_counts'', ''pct_counts_mt'', ''pct_counts_ribo'']"

definition BasicFiltering :: "library \<Rightarrow> adata \<Rightarrow> error + adata" where
  "BasicFiltering lib adata0 =
     then_do (BasicFiltering_qc lib adata0) (\<lambda>a.
     then_do (pp_log1p lib (normalize_per_cell 1000 a)) (\<lambda>a.
     then_do (pp_highly_variable_genes lib (1 / 80) 3 (1 / 2) a) (\<lambda>a.
     then_do (pp_regress_out lib regress_keys a) (pp_scale lib))))"

section \<open>LoadData\<close>

text \<open>Python's \<^verbatim>\<open>str\<close> of a natural number: its decimal digits.\<close>

definition digit_char :: "nat \<Rightarrow> char" where
  "digit_char d = char_of (48 + d)"

fun str_nat :: "nat \<Rightarrow> string" where
  "str_nat n = (if n < 10 then [digit_char n] else str_nat (n div 10) @ [digit_char (n mod 10)])"

declare str_nat.simps [simp del]

definition suffixed :: "string \<Rightarrow> nat \<Rightarrow> string" where
  "suffixed v c = v @ ''-'' @ str_nat c"

lemma of_char_digit_char: "d < 10 \<Longrightarrow> of_char (digit_char d) = (48 + d :: nat)"
proof -
  assume "d < 10"
  then have "(48 + d) mod 256 = 48 + d"
    by (intro mod_less) linarith
  then show ?thesis
    unfolding digit_char_def of_char_of by simp
qed

lemma digit_char_inj: "d < 10 \<Longrightarrow> e < 10 \<Longrightarrow> digit_char d = digit_char e \<Longrightarrow> d = e"
proof -
  assume d: "d < 10" and e: "e < 10" and eq: "digit_char d = digit_char e"
  from eq have "(of_char (digit_char d) :: nat) = of_char (digit_char e)"
    by (rule arg_cong)
  with d e show "d = e"
    by (simp only: of_char_digit_char add_left_cancel)
qed

lemma str_nat_not_Nil: "str_nat n \<noteq> []"
  by (subst str_nat.simps) simp

lemma str_nat_inj: "str_nat m = str_nat n \<Longrightarrow> m = n"
proof (induction m arbitrary: n rule: str_nat.induct)
  case (1 m)
  show ?case
  proof (cases "m < 10")
    case small_m: True
    show ?thesis
    proof (cases "n < 10")
      case True
      with small_m "1.prems" show ?thesis
        by (simp add: str_nat.simps [of m] str_nat.simps [of n] digit_char_inj)
    next
      case False
      with small_m "1.prems" str_nat_not_Nil [of "n div 10"] show ?thesis
        by (simp add: str_nat.simps [of m] str_nat.simps [of n] Cons_eq_append_conv)
    qed
  next
    case big_m: False
    show ?thesis
    proof (cases "n < 10")
      case True
      with big_m "1.prems" str_nat_not_Nil [of "m div 10"] show ?thesis
        by (simp add: str_nat.simps [of m] str_nat.simps [of n] append_eq_Cons_conv)
    next
      case False
      with big_m "1.prems"
      have eq: "str_nat (m div 10) = str_nat (n div 10)"
        and dg: "digit_char (m mod 10) = digit_char (n mod 10)"
        by (simp_all add: str_nat.simps [of m] str_nat.simps [of n])
      from "1.IH" [OF big_m eq] have "m div 10 = n div 10" .
      moreover from dg have "m mod 10 = n mod 10"
        by (rule digit_char_inj [rotated 2]) simp_all
      ultimately show ?thesis
        by (metis div_mult_mod_eq)
    qed
  qed
qed

lemma suffixed_inj: "suffixed v c = suffixed v d \<Longrightarrow> c = d"
  by (simp add: suffixed_def str_nat_inj)

text \<open>
  Modelled from the spec: \<^verbatim>\<open>adata.var_names_make_unique()\<close> is an anndata call whose
  body is not in the repository. Spec 4.1: gene symbols must be deduplicated
  (suffix-disambiguated) post-load. As the library does, an index without duplicates
  is returned as it is; otherwise every occurrence of a symbol after its first gets the
  suffix \<^verbatim>\<open>-1\<close>, \<^verbatim>\<open>-2\<close>, ... from a counter per symbol, and the loop \<open>next_free\<close> skips a
  suffixed name that is already taken. \<open>seen\<close> holds the symbols met so far,
  \<open>values_set\<close> every name in use.
\<close>

function next_free :: "string \<Rightarrow> nat \<Rightarrow> string list \<Rightarrow> nat" where
  "next_free v c values_set =
     (if suffixed v (Suc c) \<in> set values_set then next_free v (Suc c) values_set else Suc c)"
  by pat_completeness auto
termination
proof (relation "measure (\<lambda>(v, c, values_set). card {d. c < d \<and> suffixed v d \<in> set values_set})")
  show "wf (measure (\<lambda>(v, c, values_set). card {d. c < d \<and> suffixed v d \<in> set values_set}))"
    by simp
next
  fix v :: string and c :: nat and values_set :: "string list"
  assume taken: "suffixed v (Suc c) \<in> set values_set"
  let ?S = "\<lambda>c. {d. c < d \<and> suffixed v d \<in> set values_set}"
  have "inj (suffixed v)"
    by (rule injI) (rule suffixed_inj)
  then have "finite (suffixed v -` set values_set)"
    by (simp add: finite_vimageI)
  then have fin: "finite (?S c)"
    by (rule rev_finite_subset) auto
  have "?S (Suc c) \<subset> ?S c"
    using taken by auto
  with fin have "card (?S (Suc c)) < card (?S c)"
    by (rule psubset_card_mono)
  then show "((v, Suc c, values_set), (v, c, values_set))
      \<in> measure (\<lambda>(v, c, values_set). card {d. c < d \<and> suffixed v d \<in> set values_set})"
    by simp
qed

declare next_free.simps [simp del]

fun rename_dups :: "string list \<Rightarrow> string list \<Rightarrow> string list \<Rightarrow> (string \<Rightarrow> nat) \<Rightarrow> string list" where
  "rename_dups [] seen values_set counter = []"
| "rename_dups (v # vs) seen values_set counter =
     (if v \<in> set seen then
        (let c = next_free v (counter v) values_set
         in suffixed v c # rename_dups vs seen (suffixed v c # values_set) (counter(v := c)))
      else v # rename_dups vs (v # seen) values_set counter)"

definition make_index_unique :: "string list \<Rightarrow> string list" where
  "make_index_unique index =
     (if distinct index then index else rename_dups index [] index (\<lambda>_. 0))"

definition var_names_make_unique :: "adata \<Rightarrow> adata" where
  "var_names_make_unique a = a\<lparr>var := (var a)\<lparr>var_names := make_index_unique (var_names (var a))\<rparr>\<rparr>"

text \<open>
  \<^verbatim>\<open>sc.read_10x_mtx\<close> reads three files under a path; the file system enters as the
  parameter \<open>read_10x_mtx\<close>, which gives the matrix with gene symbols as variable names,
  or the error of a missing or malformed file.
\<close>

definition LoadData :: "(string \<Rightarrow> error + adata) \<Rightarrow> string \<Rightarrow> error + adata" where
  "LoadData read_10x_mtx gex_path =
     (case read_10x_mtx gex_path of
        Inl e \<Rightarrow> Inl e
      | Inr adata0 \<Rightarrow> Inr (var_names_make_unique adata0))"

section \<open>The merge cell\<close>

text \<open>
  Modelled from the spec: \<^verbatim>\<open>Index.intersection\<close> is a pandas call whose body is not in
  the repository. Spec 4.5 step 1: keep only shared genes, in deterministic order. As
  the library does with its default \<^verbatim>\<open>sort=False\<close>, the result lists each shared name
  once, in the order of the left index.
\<close>

fun unique_from :: "'a list \<Rightarrow> 'a list \<Rightarrow> 'a list" where
  "unique_from seen [] = []"
| "unique_from seen (x # xs) =
     (if x \<in> set seen then unique_from seen xs else x # unique_from (x # seen) xs)"

definition unique :: "'a list \<Rightarrow> 'a list" where
  "unique xs = unique_from [] xs"

definition intersection :: "string list \<Rightarrow> string list \<Rightarrow> string list" where
  "intersection left right = unique (filter (\<lambda>g. g \<in> set right) left)"

text \<open>
  \<^verbatim>\<open>adata[:, names]\<close> selects the gene columns with the given names, in the order given;
  a name that is not a variable name raises.
\<close>

fun index_of :: "'a list \<Rightarrow> 'a \<Rightarrow> nat" where
  "index_of [] y = 0"
| "index_of (x # xs) y = (if x = y then 0 else Suc (index_of xs y))"

definition take_idx :: "nat list \<Rightarrow> 'a list \<Rightarrow> 'a list" where
  "take_idx idx xs = map (\<lambda>i. xs ! i) idx"

definition reindex_vars :: "string list \<Rightarrow> adata \<Rightarrow> adata" where
  "reindex_vars names a =
     (let idx = map (index_of (var_names (var a))) names
      in \<lparr>obs = obs a,
          var = \<lparr>var_names = names,
                 n_cells = map_option (take_idx idx) (n_cells (var a)),
                 mt = map_option (take_idx idx) (mt (var a)),
                 ribo = map_option (take_idx idx) (ribo (var a))\<rparr>,
          X = map (take_idx idx) (X a)\<rparr>)"

definition getitem_vars :: "adata \<Rightarrow> string list \<Rightarrow> error + adata" where
  "getitem_vars a names =
     (case find (\<lambda>g. g \<notin> set (var_names (var a))) names of
        Some g \<Rightarrow> Inl (KeyError g)
      | None \<Rightarrow> Inr (reindex_vars names a))"

text \<open>
  Modelled from the spec: \<^verbatim>\<open>AnnData.concatenate\<close> is an anndata call whose body is not
  in the repository. Spec 4.5 step 2: concatenate matrices along the cell axis, tagging
  each cell with its originating sample label. As the library does by default, the
  genes are the shared ones, the barcodes get the suffix \<^verbatim>\<open>-0\<close> or \<^verbatim>\<open>-1\<close>, and a column
  \<^verbatim>\<open>batch\<close> holds \<^verbatim>\<open>0\<close> or \<^verbatim>\<open>1\<close>. A per-cell column present on both sides is
  concatenated (one present on a single side would be padded with missing values, which
  the typed columns here do not hold: it is left out); a per-gene column is kept when
  both sides agree on it.
\<close>

definition concat_col :: "'a list option \<Rightarrow> 'a list option \<Rightarrow> 'a list option" where
  "concat_col c d = (case (c, d) of (Some xs, Some ys) \<Rightarrow> Some (xs @ ys) | _ \<Rightarrow> None)"

definition merge_col :: "'a list option \<Rightarrow> 'a list option \<Rightarrow> 'a list option" where
  "merge_col c d = (if c = d then c else None)"

definition concatenate :: "adata \<Rightarrow> adata \<Rightarrow> adata" where
  "concatenate a b =
     (let shared = intersection (var_names (var a)) (var_names (var b));
          a1 = reindex_vars shared a;
          b1 = reindex_vars shared b
      in \<lparr>obs = \<lparr>obs_names = map (\<lambda>n. n @ ''-0'') (obs_names (obs a))
                               @ map (\<lambda>n. n @ ''-1'') (obs_names (obs b)),
                 sample = concat_col (sample (obs a)) (sample (obs b)),
                 batch = Some (replicate (n_obs a) ''0'' @ replicate (n_obs b) ''1''),
                 n_genes = concat_col (n_genes (obs a)) (n_genes (obs b)),
                 n_counts = concat_col (n_counts (obs a)) (n_counts (obs b)),
                 n_genes_by_counts =
                   concat_col (n_genes_by_counts (obs a)) (n_genes_by_counts (obs b)),
                 total_counts = concat_col (total_counts (obs a)) (total_counts (obs b)),
                 pct_counts_mt = concat_col (pct_counts_mt (obs a)) (pct_counts_mt (obs b)),
                 pct_counts_ribo =
                   concat_col (pct_counts_ribo (obs a)) (pct_counts_ribo (obs b))\<rparr>,
          var = \<lparr>var_names = shared,
                 n_cells = merge_col (n_cells (var a1)) (n_cells (var b1)),
                 mt = merge_col (mt (var a1)) (mt (var b1)),
                 ribo = merge_col (ribo (var a1)) (ribo (var b1))\<rparr>,
          X = X a1 @ X b1\<rparr>)"

subsection \<open>The notebook's variables\<close>

text \<open>
  The cells of the notebook run in order in one namespace; a cell that raises stops the
  run. A name that was never assigned raises \<^verbatim>\<open>NameError\<close>. \<^verbatim>\<open>Clustering\<close> (PCA,
  neighbours, UMAP, Leiden and a plot) is library code on floating-point data and enters
  as the parameter \<open>Clustering\<close>, which may raise.
\<close>

datatype pyval = AData adata | Index "string list"

type_synonym env = "string \<rightharpoonup> pyval"

definition get_adata :: "env \<Rightarrow> string \<Rightarrow> error + adata" where
  "get_adata env name =
     (case env name of
        None \<Rightarrow> Inl (NameError name)
      | Some (AData a) \<Rightarrow> Inr a
      | Some (Index _) \<Rightarrow> Inl (AttributeError name))"

definition get_index :: "env \<Rightarrow> string \<Rightarrow> error + string list" where
  "get_index env name =
     (case env name of
        None \<Rightarrow> Inl (NameError name)
      | Some (Index ix) \<Rightarrow> Inr ix
      | Some (AData _) \<Rightarrow> Inl (AttributeError name))"

definition set_sample :: "string \<Rightarrow> adata \<Rightarrow> adata" where
  "set_sample label a = a\<lparr>obs := (obs a)\<lparr>sample := Some (replicate (n_obs a) label)\<rparr>\<rparr>"

definition load_cell ::
  "(string \<Rightarrow> error + adata) \<Rightarrow> library \<Rightarrow> string \<Rightarrow> string \<Rightarrow> string
     \<Rightarrow> env \<Rightarrow> error + env" where
  "load_cell read_10x_mtx lib name gex_path label env =
     then_do (LoadData read_10x_mtx gex_path)
       (\<lambda>a. then_do (BasicFiltering lib (set_sample label a))
         (\<lambda>a. Inr (env(name \<mapsto> AData a))))"

definition cluster_cell :: "(adata \<Rightarrow> error + adata) \<Rightarrow> string \<Rightarrow> env \<Rightarrow> error + env" where
  "cluster_cell Clustering name env =
     then_do (get_adata env name)
       (\<lambda>a. then_do (Clustering a) (\<lambda>a. Inr (env(name \<mapsto> AData a))))"

text \<open>Lines 219 to 225, statement by statement.\<close>

definition merge_cell :: "(adata \<Rightarrow> error + adata) \<Rightarrow> env \<Rightarrow> error + env" where
  "merge_cell Clustering env0 =
     then_do (get_adata env0 ''naive'') (\<lambda>naive.
     then_do (get_adata env0 ''car1'') (\<lambda>car1.
     let env1 = env0(''var_names'' \<mapsto>
                  Index (intersection (var_names (var naive)) (var_names (var car1)))) in
     then_do (get_adata env1 ''naive_treated'') (\<lambda>naive_treated.
     then_do (get_index env1 ''var_names'') (\<lambda>names.
     then_do (getitem_vars naive_treated names) (\<lambda>naive.
     let env2 = env1(''naive'' \<mapsto> AData naive) in
     then_do (get_adata env2 ''car1'') (\<lambda>car1.
     then_do (get_index env2 ''var_names'') (\<lambda>names.
     then_do (getitem_vars car1 names) (\<lambda>car1.
     let env3 = env2(''car1'' \<mapsto> AData car1) in
     then_do (get_adata env3 ''naive'') (\<lambda>naive.
     then_do (get_adata env3 ''car1'') (\<lambda>car1.
     let env4 = env3(''adata'' \<mapsto> AData (concatenate naive car1)) in
     then_do (get_adata env4 ''adata'') (\<lambda>adata1.
     then_do (Clustering adata1) (\<lambda>adata2.
     Inr (env4(''adata'' \<mapsto> AData adata2))))))))))))))"

text \<open>The four cells before the merge (lines 163 to 202), and the run up to the merge.\<close>

definition cells_before_merge ::
  "(string \<Rightarrow> error + adata) \<Rightarrow> library \<Rightarrow> (adata \<Rightarrow> error + adata) \<Rightarrow> error + env" where
  "cells_before_merge read_10x_mtx lib Clustering =
     then_do (load_cell read_10x_mtx lib ''car1'' ''./data/car1/'' ''Car1'' Map.empty)
       (\<lambda>env. then_do (load_cell read_10x_mtx lib ''naive'' ''./data/naive/'' ''Naive'' env)
         (\<lambda>env. then_do (cluster_cell Clustering ''naive'' env)
           (cluster_cell Clustering ''car1'')))"

definition notebook ::
  "(string \<Rightarrow> error + adata) \<Rightarrow> library \<Rightarrow> (adata \<Rightarrow> error + adata) \<Rightarrow> error + env" where
  "notebook read_10x_mtx lib Clustering =
     then_do (cells_before_merge read_10x_mtx lib Clustering) (merge_cell Clustering)"

section \<open>The Quality-Control Filter as the specification words it\<close>

text \<open>
  Section 4.2 of the specification describes the filter over caller-supplied thresholds
  and name patterns. \<open>QC_Filter_spec\<close> follows those words, for comparison with
  \<open>BasicFiltering_qc\<close>: drop genes expressed in fewer than a minimum number of cells;
  drop cells expressing fewer than a minimum number of genes; compute the per-cell
  scalars with the given prefixes; drop cells with gene count above an upper bound,
  below a lower bound, and with mitochondrial percentage above a threshold.
\<close>

record qc_config =
  cfg_min_cells :: nat
  cfg_min_genes :: nat
  cfg_max_genes :: nat
  cfg_lower_genes :: nat
  cfg_mito_cutoff :: rat
  cfg_mito_prefixes :: "string list"
  cfg_ribo_prefixes :: "string list"

fun fgt :: "fval \<Rightarrow> rat \<Rightarrow> bool" where
  "fgt NaN t = False"
| "fgt NegInf t = False"
| "fgt (Fin q) t = (t < q)"
| "fgt PosInf t = True"

definition set_flags_spec :: "qc_config \<Rightarrow> adata \<Rightarrow> adata" where
  "set_flags_spec cfg a =
     a\<lparr>var := (var a)
        \<lparr>mt := Some (map (\<lambda>g. list_ex (\<lambda>p. prefix p g) (cfg_mito_prefixes cfg))
                  (var_names (var a))),
         ribo := Some (map (\<lambda>g. list_ex (\<lambda>p. prefix p g) (cfg_ribo_prefixes cfg))
                  (var_names (var a)))\<rparr>\<rparr>"

definition QC_Filter_spec :: "qc_config \<Rightarrow> adata \<Rightarrow> error + adata" where
  "QC_Filter_spec cfg adata0 =
     then_do (calculate_qc_metrics (set_flags_spec cfg
                (filter_cells (cfg_min_genes cfg) (filter_genes (cfg_min_cells cfg) adata0))))
       (\<lambda>a. Inr (subset_obs
          (map (\<lambda>row. count_nonzero row \<le> cfg_max_genes cfg \<and>
                      cfg_lower_genes cfg \<le> count_nonzero row \<and>
                      \<not> fgt (pct_counts
                               (map (\<lambda>g. list_ex (\<lambda>p. prefix p g) (cfg_mito_prefixes cfg))
                                  (var_names (var a))) row)
                             (cfg_mito_cutoff cfg))
             (X a)) a))"

section \<open>The cells of a matrix, row by row\<close>

text \<open>
  A view for stating what a row subset keeps: each cell as the tuple of its barcode, its
  value in every per-cell column (\<open>None\<close> where the column is absent) and its matrix row.
\<close>

definition expand :: "nat \<Rightarrow> 'a list option \<Rightarrow> 'a option list" where
  "expand n c = (case c of None \<Rightarrow> replicate n None | Some xs \<Rightarrow> map Some xs)"

type_synonym cell =
  "string \<times> string option \<times> string option \<times> nat option \<times> rat option \<times> nat option
     \<times> rat option \<times> fval option \<times> fval option \<times> rat list"

definition cells :: "adata \<Rightarrow> cell list" where
  "cells a =
     zip (obs_names (obs a))
      (zip (expand (n_obs a) (sample (obs a)))
      (zip (expand (n_obs a) (batch (obs a)))
      (zip (expand (n_obs a) (n_genes (obs a)))
      (zip (expand (n_obs a) (n_counts (obs a)))
      (zip (expand (n_obs a) (n_genes_by_counts (obs a)))
      (zip (expand (n_obs a) (total_counts (obs a)))
      (zip (expand (n_obs a) (pct_counts_mt (obs a)))
      (zip (expand (n_obs a) (pct_counts_ribo (obs a))) (X a)))))))))"

section \<open>A small example matrix\<close>

text \<open>
  Three cells and two genes, one of them mitochondrial by the mouse prefix, with
  mitochondrial percentages 15, 10 and 5; \<open>example_qc\<close> is the same matrix after
  \<^verbatim>\<open>calculate_qc_metrics\<close>.
\<close>

definition example_raw :: adata where
  "example_raw =
     \<lparr>obs = \<lparr>obs_names = [''AAAC'', ''AAAG'', ''AAAT''],
             sample = Some [''Car1'', ''Car1'', ''Car1''], batch = None, n_genes = None,
             n_counts = None, n_genes_by_counts = None, total_counts = None,
             pct_counts_mt = None, pct_counts_ribo = None\<rparr>,
      var = \<lparr>var_names = [''mt-Nd1'', ''Actb''], n_cells = None, mt = None, ribo = None\<rparr>,
      X = [[15, 85], [10, 90], [5, 95]]\<rparr>"

definition example_qc :: adata where
  "example_qc =
     \<lparr>obs = \<lparr>obs_names = [''AAAC'', ''AAAG'', ''AAAT''],
             sample = Some [''Car1'', ''Car1'', ''Car1''], batch = None, n_genes = None,
             n_counts = None, n_genes_by_counts = Some [2, 2, 2],
             total_counts = Some [100, 100, 100],
             pct_counts_mt = Some [Fin 15, Fin 10, Fin 5],
             pct_counts_ribo = Some [Fin 0, Fin 0, Fin 0]\<rparr>,
      var = \<lparr>var_names = [''mt-Nd1'', ''Actb''], n_cells = None,
             mt = Some [True, False], ribo = Some [False, False]\<rparr>,
      X = [[15, 85], [10, 90], [5, 95]]\<rparr>"

text \<open>One cell and five gene columns, three of which carry the same symbol.\<close>

definition example_duplicates :: adata where
  "example_duplicates =
     \<lparr>obs = \<lparr>obs_names = [''AAAC''], sample = None, batch = None, n_genes = None,
             n_counts = None, n_genes_by_counts = None, total_counts = None,
             pct_counts_mt = None, pct_counts_ribo = None\<rparr>,
      var = \<lparr>var_names = [''Gm1'', ''Gm1'', ''Gm1-1'', ''Actb'', ''Gm1''],
             n_cells = None, mt = None, ribo = None\<rparr>,
      X = [[1, 0, 2, 7, 0]]\<rparr>"

text \<open>One cell that expresses exactly 200 genes.\<close>

definition example_200 :: adata where
  "example_200 =
     \<lparr>obs = \<lparr>obs_names = [''AAAC''], sample = None, batch = None, n_genes = None,
             n_counts = None, n_genes_by_counts = None, total_counts = None,
             pct_counts_mt = None, pct_counts_ribo = None\<rparr>,
      var = \<lparr>var_names = map (\<lambda>i. ''Gene'' @ str_nat i) [0..<200],
             n_cells = None, mt = None, ribo = None\<rparr>,
      X = [replicate 200 1]\<rparr>"

text \<open>
  Three cells that express 201 genes each, every gene in all three cells. The first
  gene is mitochondrial; its share of the counts is 10 of 210, 40 of 240 and 100 of 300.
\<close>

definition example_big :: adata where
  "example_big =
     \<lparr>obs = \<lparr>obs_names = [''AAAC'', ''AAAG'', ''AAAT''], sample = None, batch = None,
             n_genes = None, n_counts = None, n_genes_by_counts = None, total_counts = None,
             pct_counts_mt = None, pct_counts_ribo = None\<rparr>,
      var = \<lparr>var_names = ''mt-Nd1'' # map (\<lambda>i. ''Gene'' @ str_nat i) [0..<200],
             n_cells = None, mt = None, ribo = None\<rparr>,
      X = [10 # replicate 200 1, 40 # replicate 200 1, 100 # replicate 200 1]\<rparr>"

text \<open>
  A library for the examples: a plotting call raises on a matrix without cells and
  returns otherwise; a numerical stage returns the matrix it is given.
\<close>

definition plot_nonempty :: "adata \<Rightarrow> error + unit" where
  "plot_nonempty a = (if n_obs a = 0 then Inl (IndexError ''plot'') else Inr ())"

definition example_lib :: library where
  "example_lib =
     \<lparr>pl_highest_expr_genes = (\<lambda>n_top. plot_nonempty),
      pl_violin = (\<lambda>keys. plot_nonempty),
      pp_log1p = Inr,
      pp_highly_variable_genes = (\<lambda>min_mean max_mean min_disp. Inr),
      pp_regress_out = (\<lambda>keys. Inr),
      pp_scale = Inr\<rparr>"

text \<open>
  Two configurations a caller of the specified filter could supply: the defaults that
  the specification names, and the same with the mitochondrial cutoff 20.
\<close>

definition default_config :: qc_config where
  "default_config =
     \<lparr>cfg_min_cells = 3, cfg_min_genes = 200, cfg_max_genes = 5000, cfg_lower_genes = 200,
      cfg_mito_cutoff = 10, cfg_mito_prefixes = [''mt-''],
      cfg_ribo_prefixes = [''Rps'', ''Rpl'']\<rparr>"

definition example_config :: qc_config where
  "example_config = default_config\<lparr>cfg_mito_cutoff := 20\<rparr>"

text \<open>Three cells whose counts already sum to 1000 each.\<close>

definition example_normalized :: adata where
  "example_normalized =
     \<lparr>obs = \<lparr>obs_names = [''AAAC'', ''AAAG'', ''AAAT''], sample = None, batch = None,
             n_genes = None, n_counts = None, n_genes_by_counts = None, total_counts = None,
             pct_counts_mt = None, pct_counts_ribo = None\<rparr>,
      var = \<lparr>var_names = [''mt-Nd1'', ''Actb''], n_cells = None, mt = None, ribo = None\<rparr>,
      X = [[250, 750], [1000, 0], [1 / 2, 1999 / 2]]\<rparr>"

section \<open>Filtering never adds cells or genes\<close>

lemma length_select_le: "length (select msk xs) \<le> length xs"
proof -
  have "length (filter fst (zip msk xs)) \<le> length (zip msk xs)"
    by (rule length_filter_le)
  also have "\<dots> \<le> length xs"
    by simp
  finally show ?thesis
    by (simp add: select_def)
qed

lemma n_obs_subset_obs: "n_obs (subset_obs msk a) \<le> n_obs a"
  by (simp add: n_obs_def subset_obs_def subset_obs_frame_def length_select_le)

lemma n_vars_subset_obs: "n_vars (subset_obs msk a) = n_vars a"
  by (simp add: n_vars_def subset_obs_def)

lemma n_obs_subset_var: "n_obs (subset_var msk a) = n_obs a"
  by (simp add: n_obs_def subset_var_def)

lemma n_vars_subset_var: "n_vars (subset_var msk a) \<le> n_vars a"
  by (simp add: n_vars_def subset_var_def subset_var_frame_def length_select_le)

lemma filter_genes_counts:
  "n_obs (filter_genes min_cells a) = n_obs a"
  "n_vars (filter_genes min_cells a) \<le> n_vars a"
proof -
  show "n_obs (filter_genes min_cells a) = n_obs a"
    by (simp add: filter_genes_def Let_def n_obs_subset_var) (simp add: n_obs_def)
  have "n_vars (filter_genes min_cells a)
          \<le> n_vars (a\<lparr>var := (var a)\<lparr>n_cells := Some
               (map (\<lambda>j. length (filter (\<lambda>row. 0 < row ! j) (X a))) [0..<n_vars a])\<rparr>\<rparr>)"
    unfolding filter_genes_def Let_def by (rule n_vars_subset_var)
  then show "n_vars (filter_genes min_cells a) \<le> n_vars a"
    by (simp add: n_vars_def)
qed

lemma filter_cells_counts:
  "n_obs (filter_cells min_genes a) \<le> n_obs a"
  "n_vars (filter_cells min_genes a) = n_vars a"
proof -
  have "n_obs (filter_cells min_genes a)
          \<le> n_obs (a\<lparr>obs := (obs a)\<lparr>n_genes := Some
               (map (\<lambda>row. length (filter (\<lambda>x. 0 < x) row)) (X a))\<rparr>\<rparr>)"
    unfolding filter_cells_def Let_def by (rule n_obs_subset_obs)
  then show "n_obs (filter_cells min_genes a) \<le> n_obs a"
    by (simp add: n_obs_def)
  show "n_vars (filter_cells min_genes a) = n_vars a"
    by (simp add: filter_cells_def Let_def n_vars_subset_obs) (simp add: n_vars_def)
qed

lemma normalize_per_cell_counts:
  "n_obs (normalize_per_cell t a) \<le> n_obs a"
  "n_vars (normalize_per_cell t a) = n_vars a"
proof -
  let ?b = "a\<lparr>obs := (obs a)\<lparr>n_counts := Some (map sum_list (X a))\<rparr>\<rparr>"
  let ?m = "map (\<lambda>s. 1 \<le> s) (map sum_list (X a))"
  have "n_obs (normalize_per_cell t a) = n_obs (subset_obs ?m ?b)"
    by (simp add: normalize_per_cell_def Let_def n_obs_def)
  also have "\<dots> \<le> n_obs ?b"
    by (rule n_obs_subset_obs)
  finally show "n_obs (normalize_per_cell t a) \<le> n_obs a"
    by (simp add: n_obs_def)
  have "n_vars (normalize_per_cell t a) = n_vars (subset_obs ?m ?b)"
    by (simp add: normalize_per_cell_def Let_def n_vars_def)
  then show "n_vars (normalize_per_cell t a) = n_vars a"
    by (simp add: n_vars_subset_obs) (simp add: n_vars_def)
qed

lemma set_mt_ribo_counts:
  "n_obs (set_mt_ribo a) = n_obs a" "n_vars (set_mt_ribo a) = n_vars a"
  by (simp_all add: set_mt_ribo_def n_obs_def n_vars_def)

lemma calculate_qc_metrics_set_mt_ribo:
  "calculate_qc_metrics (set_mt_ribo b) =
     Inr ((set_mt_ribo b)\<lparr>obs := (obs b)
            \<lparr>n_genes_by_counts := Some (map count_nonzero (X b)),
             total_counts := Some (map sum_list (X b)),
             pct_counts_mt :=
               Some (map (pct_counts (map (\<lambda>g. prefix ''mt-'' g) (var_names (var b)))) (X b)),
             pct_counts_ribo :=
               Some (map (pct_counts
                 (map (\<lambda>g. prefix ''Rps'' g \<or> prefix ''Rpl'' g) (var_names (var b)))) (X b))\<rparr>\<rparr>)"
  by (simp add: calculate_qc_metrics_def set_mt_ribo_def)

lemma subset_obs_columns:
  "n_genes_by_counts (obs (subset_obs msk a)) = map_option (select msk) (n_genes_by_counts (obs a))"
  "pct_counts_mt (obs (subset_obs msk a)) = map_option (select msk) (pct_counts_mt (obs a))"
  "sample (obs (subset_obs msk a)) = map_option (select msk) (sample (obs a))"
  "obs_names (obs (subset_obs msk a)) = select msk (obs_names (obs a))"
  "X (subset_obs msk a) = select msk (X a)"
  "var (subset_obs msk a) = var a"
  by (simp_all add: subset_obs_def subset_obs_frame_def)

lemma drop_high_genes_Some:
  "n_genes_by_counts (obs a) = Some col \<Longrightarrow>
   drop_high_genes a = Inr (subset_obs (map (\<lambda>n. n < 5000) col) a)"
  by (simp add: drop_high_genes_def)

lemma drop_low_genes_Some:
  "n_genes_by_counts (obs a) = Some col \<Longrightarrow>
   drop_low_genes a = Inr (subset_obs (map (\<lambda>n. 200 < n) col) a)"
  by (simp add: drop_low_genes_def)

lemma drop_high_mt_Some:
  "pct_counts_mt (obs a) = Some col \<Longrightarrow>
   drop_high_mt a = Inr (subset_obs (map (\<lambda>p. flt p 10) col) a)"
  by (simp add: drop_high_mt_def)

text \<open>
  The filtering part raises what a plotting call raises and nothing else: the columns
  that the masks read are assigned by \<^verbatim>\<open>calculate_qc_metrics\<close> a few lines earlier. When
  it returns, its result is three nested row subsets of the annotated matrix.
\<close>

lemma BasicFiltering_qc_unfold:
  fixes adata0 :: adata
  defines "b \<equiv> filter_cells 200 (filter_genes 3 adata0)"
  defines "ng \<equiv> map count_nonzero (X b)"
  defines "pm \<equiv> map (pct_counts (map (\<lambda>g. prefix ''mt-'' g) (var_names (var b)))) (X b)"
  defines "m1 \<equiv> map (\<lambda>n. n < 5000) ng"
  defines "m2 \<equiv> map (\<lambda>n. 200 < n) (select m1 ng)"
  defines "m3 \<equiv> map (\<lambda>p. flt p 10) (select m2 (select m1 pm))"
  shows "\<exists>q. calculate_qc_metrics (set_mt_ribo b) = Inr q \<and>
             n_obs q = n_obs b \<and> n_vars q = n_vars b \<and> X q = X b \<and>
             obs_names (obs q) = obs_names (obs b) \<and> sample (obs q) = sample (obs b) \<and>
             var_names (var q) = var_names (var b) \<and>
             BasicFiltering_qc lib adata0 =
               then_do (pl_highest_expr_genes lib 20 adata0) (\<lambda>_.
               then_do (pl_violin lib violin_keys q) (\<lambda>_.
               Inr (subset_obs m3 (subset_obs m2 (subset_obs m1 q)))))"
proof -
  define q where "q = (set_mt_ribo b)\<lparr>obs := (obs b)
            \<lparr>n_genes_by_counts := Some (map count_nonzero (X b)),
             total_counts := Some (map sum_list (X b)),
             pct_counts_mt :=
               Some (map (pct_counts (map (\<lambda>g. prefix ''mt-'' g) (var_names (var b)))) (X b)),
             pct_counts_ribo :=
               Some (map (pct_counts
                 (map (\<lambda>g. prefix ''Rps'' g \<or> prefix ''Rpl'' g) (var_names (var b)))) (X b))\<rparr>\<rparr>"
  have q: "calculate_qc_metrics (set_mt_ribo b) = Inr q"
    unfolding q_def by (rule calculate_qc_metrics_set_mt_ribo)
  have q_ng: "n_genes_by_counts (obs q) = Some ng"
    and q_pm: "pct_counts_mt (obs q) = Some pm"
    by (simp_all add: q_def ng_def pm_def)
  have q_frame: "n_obs q = n_obs b" "n_vars q = n_vars b" "X q = X b"
      "obs_names (obs q) = obs_names (obs b)" "sample (obs q) = sample (obs b)"
      "var_names (var q) = var_names (var b)"
    by (simp_all add: q_def set_mt_ribo_def n_obs_def n_vars_def)
  have s1: "drop_high_genes q = Inr (subset_obs m1 q)"
    unfolding m1_def by (rule drop_high_genes_Some [OF q_ng])
  have s2: "drop_low_genes (subset_obs m1 q) = Inr (subset_obs m2 (subset_obs m1 q))"
    unfolding m2_def by (rule drop_low_genes_Some) (simp add: subset_obs_columns q_ng)
  have s3: "drop_high_mt (subset_obs m2 (subset_obs m1 q))
              = Inr (subset_obs m3 (subset_obs m2 (subset_obs m1 q)))"
    unfolding m3_def by (rule drop_high_mt_Some) (simp add: subset_obs_columns q_pm)
  have "BasicFiltering_qc lib adata0 =
          then_do (pl_highest_expr_genes lib 20 adata0) (\<lambda>_.
          then_do (pl_violin lib violin_keys q) (\<lambda>_.
          Inr (subset_obs m3 (subset_obs m2 (subset_obs m1 q)))))"
    using q s1 s2 s3
    by (simp add: BasicFiltering_qc_def then_do_def b_def split: sum.splits)
  with q q_frame show ?thesis by blast
qed

lemma example_qc_computed:
  "calculate_qc_metrics (set_mt_ribo example_raw) = Inr example_qc"
  by (simp add: calculate_qc_metrics_def set_mt_ribo_def example_raw_def example_qc_def
      pct_counts_def select_def fdiv_def count_nonzero_def)

lemma BasicFiltering_qc_counts:
  assumes "BasicFiltering_qc lib a = Inr a'"
  shows "n_obs a' \<le> n_obs a \<and> n_vars a' \<le> n_vars a"
proof -
  let ?b = "filter_cells 200 (filter_genes 3 a)"
  from BasicFiltering_qc_unfold [of a lib]
  obtain q m1 m2 m3 where q: "n_obs q = n_obs ?b" "n_vars q = n_vars ?b"
    and r: "BasicFiltering_qc lib a =
              then_do (pl_highest_expr_genes lib 20 a) (\<lambda>_.
              then_do (pl_violin lib violin_keys q) (\<lambda>_.
              Inr (subset_obs m3 (subset_obs m2 (subset_obs m1 q)))))"
    by blast
  let ?r = "subset_obs m3 (subset_obs m2 (subset_obs m1 q))"
  from r assms have a': "a' = ?r"
    by (auto simp: then_do_def split: sum.splits)
  have "n_obs ?r \<le> n_obs (subset_obs m2 (subset_obs m1 q))"
    by (rule n_obs_subset_obs)
  also have "\<dots> \<le> n_obs (subset_obs m1 q)"
    by (rule n_obs_subset_obs)
  also have "\<dots> \<le> n_obs q"
    by (rule n_obs_subset_obs)
  also have "\<dots> \<le> n_obs (filter_genes 3 a)"
    by (simp add: q filter_cells_counts)
  also have "\<dots> = n_obs a"
    by (rule filter_genes_counts)
  finally have obs_le: "n_obs ?r \<le> n_obs a" .
  have "n_vars ?r = n_vars (filter_genes 3 a)"
    by (simp add: n_vars_subset_obs q filter_cells_counts)
  also have "\<dots> \<le> n_vars a"
    by (rule filter_genes_counts)
  finally have "n_vars ?r \<le> n_vars a" .
  with obs_le show ?thesis
    unfolding a' ..
qed

section \<open>Row subsets, cell by cell\<close>

lemma select_simps [simp]:
  "select [] xs = []"
  "select msk [] = []"
  "select (b # msk) (x # xs) = (if b then x # select msk xs else select msk xs)"
  by (simp_all add: select_def)

lemma select_map_map: "select (map P xs) (map f xs) = map f (filter P xs)"
  by (induction xs) simp_all

lemma select_map_self: "select (map P xs) xs = filter P xs"
  using select_map_map [of P xs "\<lambda>x. x"] by simp

lemma select_zip: "select msk (zip xs ys) = zip (select msk xs) (select msk ys)"
proof (induction msk arbitrary: xs ys)
  case Nil
  show ?case by simp
next
  case (Cons b msk)
  show ?case
  proof (cases xs)
    case Nil
    then show ?thesis by simp
  next
    case xs: (Cons x xs')
    show ?thesis
    proof (cases ys)
      case Nil
      then show ?thesis by simp
    next
      case (Cons y ys')
      with xs Cons.IH show ?thesis by simp
    qed
  qed
qed

lemma subseq_select: "subseq (select msk xs) xs"
proof (induction msk arbitrary: xs)
  case Nil
  show ?case by simp
next
  case (Cons b msk)
  then show ?case by (cases xs) auto
qed

lemma select_replicate: "select msk (replicate (length msk) x) = replicate (length (select msk msk)) x"
  by (induction msk) simp_all

lemma length_select_same:
  "length xs = length msk \<Longrightarrow> length (select msk xs) = length (select msk msk)"
proof (induction msk arbitrary: xs)
  case Nil
  show ?case by simp
next
  case (Cons b msk)
  then show ?case by (cases xs) auto
qed

lemma select_by_column:
  assumes "length xs = length ys"
  shows "zip (select (map P ys) xs) (select (map P ys) ys) = filter (\<lambda>(x, y). P y) (zip xs ys)"
proof -
  have msk: "map P ys = map (\<lambda>(x, y). P y) (zip xs ys)"
    using assms by (induction xs ys rule: list_induct2) simp_all
  have "zip (select (map P ys) xs) (select (map P ys) ys) = select (map P ys) (zip xs ys)"
    by (simp add: select_zip)
  also have "\<dots> = select (map (\<lambda>(x, y). P y) (zip xs ys)) (zip xs ys)"
    by (subst msk) (rule refl)
  also have "\<dots> = filter (\<lambda>(x, y). P y) (zip xs ys)"
    by (rule select_map_self)
  finally show ?thesis .
qed

lemma select_map: "select msk (map f xs) = map f (select msk xs)"
proof (induction msk arbitrary: xs)
  case Nil
  show ?case by simp
next
  case (Cons b msk)
  then show ?case by (cases xs) simp_all
qed

lemma expand_select:
  assumes "length names = length msk" and "col_len (length names) c"
  shows "expand (length (select msk names)) (map_option (select msk) c)
           = select msk (expand (length names) c)"
proof (cases c)
  case None
  have "length (select msk names) = length (select msk msk)"
    using assms(1) by (rule length_select_same)
  with None assms(1) show ?thesis
    by (simp add: expand_def select_replicate)
next
  case (Some xs)
  then show ?thesis
    by (simp add: expand_def select_map)
qed

lemma cells_subset_obs:
  assumes "wf_adata a" and "length msk = n_obs a"
  shows "cells (subset_obs msk a) = select msk (cells a)"
proof -
  have len: "length (obs_names (obs a)) = length msk"
    using assms(2) by (simp add: n_obs_def)
  have cols: "col_len (length (obs_names (obs a))) (sample (obs a))"
    "col_len (length (obs_names (obs a))) (batch (obs a))"
    "col_len (length (obs_names (obs a))) (n_genes (obs a))"
    "col_len (length (obs_names (obs a))) (n_counts (obs a))"
    "col_len (length (obs_names (obs a))) (n_genes_by_counts (obs a))"
    "col_len (length (obs_names (obs a))) (total_counts (obs a))"
    "col_len (length (obs_names (obs a))) (pct_counts_mt (obs a))"
    "col_len (length (obs_names (obs a))) (pct_counts_ribo (obs a))"
    using assms(1) by (simp_all add: wf_adata_def n_obs_def)
  show ?thesis
    by (simp add: cells_def subset_obs_def subset_obs_frame_def n_obs_def
        expand_select [OF len] cols select_zip)
qed

lemma length_expand: "col_len n c \<Longrightarrow> length (expand n c) = n"
  by (cases c) (simp_all add: expand_def col_len_def)

lemma length_cells: "wf_adata a \<Longrightarrow> length (cells a) = n_obs a"
  by (simp add: cells_def wf_adata_def length_expand n_obs_def)

lemma col_len_select:
  assumes "length msk = n" and "col_len n c" and "length names = n"
  shows "col_len (length (select msk names)) (map_option (select msk) c)"
proof (cases c)
  case None
  then show ?thesis by (simp add: col_len_def)
next
  case (Some xs)
  from assms(2) have "length xs = n"
    unfolding Some col_len_def by simp
  from this assms(1) [symmetric] have "length xs = length msk"
    by (rule trans)
  then have 1: "length (select msk xs) = length (select msk msk)"
    by (rule length_select_same)
  from assms(3) assms(1) [symmetric] have "length names = length msk"
    by (rule trans)
  then have 2: "length (select msk names) = length (select msk msk)"
    by (rule length_select_same)
  show ?thesis
    unfolding Some col_len_def using 1 2 by simp
qed

lemma set_select: "set (select msk xs) \<subseteq> set xs"
proof (induction msk arbitrary: xs)
  case Nil
  show ?case by simp
next
  case (Cons b msk)
  show ?case
  proof (cases xs)
    case Nil
    then show ?thesis by simp
  next
    case (Cons x xs')
    with Cons.IH [of xs'] show ?thesis by auto
  qed
qed

lemma wf_subset_obs:
  assumes "wf_adata a" and "length msk = n_obs a"
  shows "wf_adata (subset_obs msk a)"
proof -
  let ?names = "obs_names (obs a)"
  let ?b = "subset_obs msk a"
  have len: "length msk = length ?names"
    using assms(2) by (simp add: n_obs_def)
  have nb: "n_obs ?b = length (select msk ?names)"
    by (simp add: n_obs_def subset_obs_def subset_obs_frame_def)
  have vb: "n_vars ?b = n_vars a"
    by (simp add: n_vars_def subset_obs_def)
  have X_len: "length (X a) = length msk"
    using assms by (simp add: wf_adata_def)
  have rows: "list_all (\<lambda>row. length row = n_vars ?b) (X ?b)"
  proof -
    have "\<forall>row \<in> set (X a). length row = n_vars a"
      using assms(1) by (simp add: wf_adata_def list_all_iff)
    with set_select [of msk "X a"] have "\<forall>row \<in> set (select msk (X a)). length row = n_vars a"
      by blast
    then show ?thesis
      unfolding vb list_all_iff by (simp add: subset_obs_columns)
  qed
  have X_sel: "length (X ?b) = n_obs ?b"
  proof -
    have "length (select msk (X a)) = length (select msk msk)"
      using X_len by (rule length_select_same)
    moreover have "length (select msk ?names) = length (select msk msk)"
      using len [symmetric] by (rule length_select_same)
    ultimately show ?thesis
      by (simp add: nb subset_obs_columns)
  qed
  have c: "col_len (n_obs ?b) (map_option (select msk) c)" if "col_len (n_obs a) c" for c :: "'c list option"
    unfolding nb using assms(2) that
    by (rule col_len_select) (simp add: n_obs_def)
  from assms(1) have old: "col_len (n_obs a) (sample (obs a))" "col_len (n_obs a) (batch (obs a))"
    "col_len (n_obs a) (n_genes (obs a))" "col_len (n_obs a) (n_counts (obs a))"
    "col_len (n_obs a) (n_genes_by_counts (obs a))" "col_len (n_obs a) (total_counts (obs a))"
    "col_len (n_obs a) (pct_counts_mt (obs a))" "col_len (n_obs a) (pct_counts_ribo (obs a))"
    and oldv: "col_len (n_vars a) (n_cells (var a))" "col_len (n_vars a) (mt (var a))"
    "col_len (n_vars a) (ribo (var a))"
    by (simp_all add: wf_adata_def)
  have obs_b: "sample (obs ?b) = map_option (select msk) (sample (obs a))"
    "batch (obs ?b) = map_option (select msk) (batch (obs a))"
    "n_genes (obs ?b) = map_option (select msk) (n_genes (obs a))"
    "n_counts (obs ?b) = map_option (select msk) (n_counts (obs a))"
    "n_genes_by_counts (obs ?b) = map_option (select msk) (n_genes_by_counts (obs a))"
    "total_counts (obs ?b) = map_option (select msk) (total_counts (obs a))"
    "pct_counts_mt (obs ?b) = map_option (select msk) (pct_counts_mt (obs a))"
    "pct_counts_ribo (obs ?b) = map_option (select msk) (pct_counts_ribo (obs a))"
    and var_b: "var ?b = var a"
    by (simp_all add: subset_obs_def subset_obs_frame_def)
  show ?thesis
    unfolding wf_adata_def [of ?b] obs_b var_b
    using X_sel rows c [OF old(1)] c [OF old(2)] c [OF old(3)] c [OF old(4)] c [OF old(5)]
      c [OF old(6)] c [OF old(7)] c [OF old(8)] oldv
    by (simp only: vb simp_thms)
qed

section \<open>Row subsets by a predicate on the matrix row\<close>

lemma X_filter_cells:
  "X (filter_cells m a) = filter (\<lambda>row. m \<le> length (filter (\<lambda>x. 0 < x) row)) (X a)"
proof -
  have "map (\<lambda>n. m \<le> n) (map (\<lambda>row. length (filter (\<lambda>x. 0 < x) row)) (X a))
          = map (\<lambda>row. m \<le> length (filter (\<lambda>x. 0 < x) row)) (X a)"
    by simp
  then show ?thesis
    by (simp add: filter_cells_def Let_def subset_obs_columns select_map_self del: map_map)
qed

lemma obs_names_filter_cells:
  "obs_names (obs (filter_cells m a))
     = select (map (\<lambda>row. m \<le> length (filter (\<lambda>x. 0 < x) row)) (X a)) (obs_names (obs a))"
  by (simp add: filter_cells_def Let_def subset_obs_columns comp_def)

lemma length_X_filter_cells:
  assumes "length (X a) = n_obs a"
  shows "length (X (filter_cells m a)) = n_obs (filter_cells m a)"
proof -
  let ?msk = "map (\<lambda>row. m \<le> length (filter (\<lambda>x. 0 < x) row)) (X a)"
  have 1: "length (X a) = length ?msk"
    by simp
  have 2: "length (obs_names (obs a)) = length ?msk"
    using assms by (simp add: n_obs_def)
  have "X (filter_cells m a) = select ?msk (X a)"
    by (simp add: X_filter_cells select_map_self)
  moreover have "length (select ?msk (X a)) = length (select ?msk ?msk)"
    using 1 by (rule length_select_same)
  moreover have "length (select ?msk (obs_names (obs a))) = length (select ?msk ?msk)"
    using 2 by (rule length_select_same)
  ultimately show ?thesis
    by (simp add: n_obs_def obs_names_filter_cells)
qed

lemma count_nonzero_nonneg:
  assumes "list_all (\<lambda>x. 0 \<le> x) row"
  shows "count_nonzero row = length (filter (\<lambda>x. 0 < x) row)"
proof -
  have "filter (\<lambda>x. x \<noteq> 0) row = filter (\<lambda>x. 0 < x) row"
    using assms by (intro filter_cong) (auto simp: list_all_iff)
  then show ?thesis
    by (simp add: count_nonzero_def)
qed

lemma subset_obs_rows:
  fixes P :: "rat list \<Rightarrow> bool"
  assumes ng: "n_genes_by_counts (obs q) = Some (map count_nonzero (X q))"
    and pm: "pct_counts_mt (obs q) = Some (map (pct_counts fl) (X q))"
    and len: "length (obs_names (obs q)) = length (X q)"
  defines "q' \<equiv> subset_obs (map P (X q)) q"
  shows "n_genes_by_counts (obs q') = Some (map count_nonzero (X q'))"
    and "pct_counts_mt (obs q') = Some (map (pct_counts fl) (X q'))"
    and "length (obs_names (obs q')) = length (X q')"
    and "zip (obs_names (obs q')) (X q') = filter (\<lambda>(name, row). P row) (zip (obs_names (obs q)) (X q))"
    and "var q' = var q"
proof -
  show "n_genes_by_counts (obs q') = Some (map count_nonzero (X q'))"
    by (simp add: q'_def subset_obs_columns ng select_map)
  show "pct_counts_mt (obs q') = Some (map (pct_counts fl) (X q'))"
    by (simp add: q'_def subset_obs_columns pm select_map)
  have z: "zip (select (map P (X q)) (obs_names (obs q))) (select (map P (X q)) (X q))
             = filter (\<lambda>(name, row). P row) (zip (obs_names (obs q)) (X q))"
    using len by (rule select_by_column)
  then show "zip (obs_names (obs q')) (X q')
               = filter (\<lambda>(name, row). P row) (zip (obs_names (obs q)) (X q))"
    by (simp add: q'_def subset_obs_columns)
  have "length (select (map P (X q)) (obs_names (obs q))) = length (select (map P (X q)) (map P (X q)))"
    using len by (intro length_select_same) simp
  moreover have "length (select (map P (X q)) (X q)) = length (select (map P (X q)) (map P (X q)))"
    by (intro length_select_same) simp
  ultimately show "length (obs_names (obs q')) = length (X q')"
    by (simp add: q'_def subset_obs_columns)
  show "var q' = var q"
    by (simp add: q'_def subset_obs_columns)
qed

lemma drop_steps_by_rows:
  assumes "n_genes_by_counts (obs q) = Some (map count_nonzero (X q))"
    and "pct_counts_mt (obs q) = Some (map (pct_counts fl) (X q))"
  shows "drop_high_genes q = Inr (subset_obs (map (\<lambda>row. count_nonzero row < 5000) (X q)) q)"
    and "drop_low_genes q = Inr (subset_obs (map (\<lambda>row. 200 < count_nonzero row) (X q)) q)"
    and "drop_high_mt q = Inr (subset_obs (map (\<lambda>row. flt (pct_counts fl row) 10) (X q)) q)"
  using assms by (simp_all add: drop_high_genes_def drop_low_genes_def drop_high_mt_def comp_def)

lemma length_X_filter_genes:
  assumes "length (X a) = n_obs a"
  shows "length (X (filter_genes m a)) = n_obs (filter_genes m a)"
  using assms by (simp add: filter_genes_def Let_def subset_var_def n_obs_def)

section \<open>The filtering part, row by row\<close>

lemma subset_obs_more_columns:
  assumes "pct_counts_ribo (obs q) = Some (map f (X q))" and "total_counts (obs q) = Some (map g (X q))"
  shows "pct_counts_ribo (obs (subset_obs (map P (X q)) q))
           = Some (map f (X (subset_obs (map P (X q)) q)))"
    and "total_counts (obs (subset_obs (map P (X q)) q))
           = Some (map g (X (subset_obs (map P (X q)) q)))"
  using assms by (simp_all add: subset_obs_def subset_obs_frame_def select_map)

lemma BasicFiltering_qc_rows:
  assumes len: "length (X a) = n_obs a" and run: "BasicFiltering_qc lib a = Inr r"
  shows "zip (obs_names (obs r)) (X r)
           = filter (\<lambda>(name, row). count_nonzero row < 5000 \<and> 200 < count_nonzero row \<and>
                 flt (pct_counts (map (\<lambda>g. prefix ''mt-'' g)
                        (var_names (var (filter_cells 200 (filter_genes 3 a))))) row) 10)
               (zip (obs_names (obs (filter_cells 200 (filter_genes 3 a))))
                    (X (filter_cells 200 (filter_genes 3 a))))"
    and "length (obs_names (obs r)) = length (X r)"
    and "var r = var (set_mt_ribo (filter_cells 200 (filter_genes 3 a)))"
    and "pct_counts_ribo (obs r)
           = Some (map (pct_counts (map (\<lambda>g. prefix ''Rps'' g \<or> prefix ''Rpl'' g)
                    (var_names (var (filter_cells 200 (filter_genes 3 a)))))) (X r))"
    and "pl_highest_expr_genes lib 20 a = Inr ()"
proof -
  let ?b = "filter_cells 200 (filter_genes 3 a)"
  let ?fl = "map (\<lambda>g. prefix ''mt-'' g) (var_names (var ?b))"
  let ?rl = "map (\<lambda>g. prefix ''Rps'' g \<or> prefix ''Rpl'' g) (var_names (var ?b))"
  let ?P1 = "\<lambda>row. count_nonzero row < 5000"
  let ?P2 = "\<lambda>row. 200 < count_nonzero row"
  let ?P3 = "\<lambda>row. flt (pct_counts ?fl row) 10"
  define q0 where "q0 = (set_mt_ribo ?b)\<lparr>obs := (obs ?b)
            \<lparr>n_genes_by_counts := Some (map count_nonzero (X ?b)),
             total_counts := Some (map sum_list (X ?b)),
             pct_counts_mt := Some (map (pct_counts ?fl) (X ?b)),
             pct_counts_ribo := Some (map (pct_counts ?rl) (X ?b))\<rparr>\<rparr>"
  define q1 where "q1 = subset_obs (map ?P1 (X q0)) q0"
  define q2 where "q2 = subset_obs (map ?P2 (X q1)) q1"
  define q3 where "q3 = subset_obs (map ?P3 (X q2)) q2"
  have calc: "calculate_qc_metrics (set_mt_ribo ?b) = Inr q0"
    unfolding q0_def by (rule calculate_qc_metrics_set_mt_ribo)
  have X0: "X q0 = X ?b" and n0: "obs_names (obs q0) = obs_names (obs ?b)"
    and v0: "var q0 = var (set_mt_ribo ?b)"
    by (simp_all add: q0_def set_mt_ribo_def)
  have ng0: "n_genes_by_counts (obs q0) = Some (map count_nonzero (X q0))"
    and pm0: "pct_counts_mt (obs q0) = Some (map (pct_counts ?fl) (X q0))"
    and pr0: "pct_counts_ribo (obs q0) = Some (map (pct_counts ?rl) (X q0))"
    and tc0: "total_counts (obs q0) = Some (map sum_list (X q0))"
    by (simp_all add: q0_def set_mt_ribo_def)
  have l0: "length (obs_names (obs q0)) = length (X q0)"
    using length_X_filter_cells [OF length_X_filter_genes [OF len], of 200 3]
    by (simp add: X0 n0 n_obs_def)
  note r1 = subset_obs_rows [OF ng0 pm0 l0, of ?P1, folded q1_def]
  note r2 = subset_obs_rows [OF r1(1) r1(2) r1(3), of ?P2, folded q2_def]
  note r3 = subset_obs_rows [OF r2(1) r2(2) r2(3), of ?P3, folded q3_def]
  note m1 = subset_obs_more_columns [OF pr0 tc0, of ?P1, folded q1_def]
  note m2 = subset_obs_more_columns [OF m1, of ?P2, folded q2_def]
  note m3 = subset_obs_more_columns [OF m2, of ?P3, folded q3_def]
  have s1: "drop_high_genes q0 = Inr q1"
    unfolding q1_def using ng0 pm0 by (rule drop_steps_by_rows)
  have s2: "drop_low_genes q1 = Inr q2"
    unfolding q2_def using r1(1) r1(2) by (rule drop_steps_by_rows)
  have s3: "drop_high_mt q2 = Inr q3"
    unfolding q3_def using r2(1) r2(2) by (rule drop_steps_by_rows)
  have "BasicFiltering_qc lib a =
          then_do (pl_highest_expr_genes lib 20 a) (\<lambda>_.
          then_do (pl_violin lib violin_keys q0) (\<lambda>_. Inr q3))"
    by (simp add: BasicFiltering_qc_def then_do_def calc s1 s2 s3 split: sum.splits)
  with run have r: "r = q3" and hg: "pl_highest_expr_genes lib 20 a = Inr ()"
    by (auto simp: then_do_def split: sum.splits)
  show "pl_highest_expr_genes lib 20 a = Inr ()" by (rule hg)
  have "zip (obs_names (obs q3)) (X q3)
          = filter (\<lambda>(name, row). ?P3 row) (filter (\<lambda>(name, row). ?P2 row)
              (filter (\<lambda>(name, row). ?P1 row) (zip (obs_names (obs q0)) (X q0))))"
    by (simp only: r3(4) r2(4) r1(4))
  also have "\<dots> = filter (\<lambda>(name, row). ?P1 row \<and> ?P2 row \<and> ?P3 row)
                      (zip (obs_names (obs q0)) (X q0))"
    by (auto intro!: filter_cong)
  finally show "zip (obs_names (obs r)) (X r)
      = filter (\<lambda>(name, row). ?P1 row \<and> ?P2 row \<and> ?P3 row) (zip (obs_names (obs ?b)) (X ?b))"
    by (simp only: X0 n0 r)
  show "length (obs_names (obs r)) = length (X r)"
    unfolding r by (rule r3(3))
  show "var r = var (set_mt_ribo ?b)"
    by (simp add: r r3(5) r2(5) r1(5) v0)
  show "pct_counts_ribo (obs r) = Some (map (pct_counts ?rl) (X r))"
    unfolding r by (rule m3(1))
qed

section \<open>The example with 201 genes\<close>

lemma select_all_True: "length xs \<le> n \<Longrightarrow> select (replicate n True) xs = xs"
proof (induction xs arbitrary: n)
  case Nil
  show ?case by simp
next
  case (Cons x xs)
  then show ?case by (cases n) simp_all
qed

lemma select_all_False: "select (map (\<lambda>i. False) js) xs = []"
proof (induction js arbitrary: xs)
  case Nil
  show ?case by simp
next
  case (Cons j js)
  then show ?case by (cases xs) simp_all
qed

lemma filter_genes_keeps_all:
  assumes rows: "\<forall>row \<in> set (X a). length row = n_vars a \<and> (\<forall>x \<in> set row. 0 < x)"
    and enough: "m \<le> length (X a)"
  shows "X (filter_genes m a) = X a"
    and "var_names (var (filter_genes m a)) = var_names (var a)"
    and "obs (filter_genes m a) = obs a"
proof -
  let ?n = "n_vars a"
  have pos: "filter (\<lambda>row. 0 < row ! j) (X a) = X a" if "j < ?n" for j
    using rows that by (auto simp: filter_id_conv)
  have "map (\<lambda>j. length (filter (\<lambda>row. 0 < row ! j) (X a))) [0..<?n]
          = map (\<lambda>j. length (X a)) [0..<?n]"
    by (rule map_cong [OF refl]) (simp add: pos)
  then have msk: "map (\<lambda>n. m \<le> n) (map (\<lambda>j. length (filter (\<lambda>row. 0 < row ! j) (X a))) [0..<?n])
                    = replicate ?n True"
    using enough by (simp add: map_replicate_const)
  have names: "select (replicate ?n True) (var_names (var a)) = var_names (var a)"
    by (rule select_all_True) (simp add: n_vars_def)
  have Xs: "map (select (replicate ?n True)) (X a) = X a"
    using rows by (intro map_idI select_all_True) simp
  show "X (filter_genes m a) = X a"
    unfolding filter_genes_def Let_def msk by (simp add: subset_var_def Xs)
  show "var_names (var (filter_genes m a)) = var_names (var a)"
    unfolding filter_genes_def Let_def msk by (simp add: subset_var_def subset_var_frame_def names)
  show "obs (filter_genes m a) = obs a"
    unfolding filter_genes_def Let_def msk by (simp add: subset_var_def)
qed

text \<open>The example with 201 genes, with any per-cell or per-gene columns.\<close>

lemma example_big_filtered:
  assumes X: "X a = X example_big"
    and names: "obs_names (obs a) = obs_names (obs example_big)"
    and genes: "var_names (var a) = var_names (var example_big)"
  shows "X (filter_cells 200 (filter_genes 3 a)) = X example_big"
    and "obs_names (obs (filter_cells 200 (filter_genes 3 a))) = [''AAAC'', ''AAAG'', ''AAAT'']"
    and "var_names (var (filter_cells 200 (filter_genes 3 a))) = var_names (var example_big)"
proof -
  have rows: "\<forall>row \<in> set (X a). length row = n_vars a \<and> (\<forall>x \<in> set row. 0 < x)"
    by (simp add: X genes n_vars_def example_big_def)
  have enough: "3 \<le> length (X a)"
    by (simp add: X example_big_def)
  note fg = filter_genes_keeps_all [OF rows enough]
  show 1: "X (filter_cells 200 (filter_genes 3 a)) = X example_big"
    by (simp add: X_filter_cells fg X) (simp add: example_big_def filter_replicate)
  show "obs_names (obs (filter_cells 200 (filter_genes 3 a))) = [''AAAC'', ''AAAG'', ''AAAT'']"
    by (simp add: obs_names_filter_cells fg X names) (simp add: example_big_def filter_replicate)
  show "var_names (var (filter_cells 200 (filter_genes 3 a))) = var_names (var example_big)"
    by (simp add: filter_cells_def Let_def subset_obs_columns fg genes)
qed

lemma example_big_mt_flags:
  "map (\<lambda>g. prefix ''mt-'' g) (var_names (var example_big)) = True # map (\<lambda>i. False) [0..<200]"
  by (simp add: example_big_def)

lemma example_big_row:
  "count_nonzero (c # replicate 200 1) = (if c = 0 then 200 else 201)"
  "pct_counts (True # map (\<lambda>i. False) [0..<200]) (c # replicate 200 1)
     = fscale (fdiv c (c + 200)) 100"
  by (simp_all add: count_nonzero_def filter_replicate pct_counts_def select_all_False
      sum_list_replicate)

lemma n_obs_example_big_like:
  assumes "obs_names (obs a) = obs_names (obs example_big)"
  shows "n_obs a = 3"
  using assms by (simp add: n_obs_def example_big_def)

lemma example_big_run:
  assumes X: "X a = X example_big"
    and names: "obs_names (obs a) = obs_names (obs example_big)"
    and genes: "var_names (var a) = var_names (var example_big)"
  shows "\<exists>r. BasicFiltering_qc example_lib a = Inr r \<and>
           obs_names (obs r) = [''AAAC''] \<and> X r = [10 # replicate 200 1]"
proof -
  let ?b = "filter_cells 200 (filter_genes 3 a)"
  note b = example_big_filtered [OF X names genes]
  from BasicFiltering_qc_unfold [of a example_lib]
  obtain q r0 where nq: "n_obs q = n_obs ?b"
    and eq: "BasicFiltering_qc example_lib a =
              then_do (pl_highest_expr_genes example_lib 20 a) (\<lambda>_.
              then_do (pl_violin example_lib violin_keys q) (\<lambda>_. Inr r0))"
    by blast
  have "n_obs a = 3"
    using names by (rule n_obs_example_big_like)
  then have p1: "pl_highest_expr_genes example_lib 20 a = Inr ()"
    by (simp add: example_lib_def plot_nonempty_def)
  have "n_obs ?b = 3"
    by (simp add: n_obs_def b)
  with nq have "n_obs q = 3"
    by simp
  then have p2: "pl_violin example_lib violin_keys q = Inr ()"
    by (simp add: example_lib_def plot_nonempty_def)
  have run: "BasicFiltering_qc example_lib a = Inr r0"
    by (simp add: eq p1 p2 then_do_def)
  have len: "length (X a) = n_obs a"
    by (simp add: X \<open>n_obs a = 3\<close>) (simp add: example_big_def)
  have "zip (obs_names (obs r0)) (X r0) = [(''AAAC'', 10 # replicate 200 1)]"
    unfolding BasicFiltering_qc_rows(1) [OF len run] b example_big_mt_flags
    by (simp add: example_big_def example_big_row fdiv_def)
  moreover have "length (obs_names (obs r0)) = length (X r0)"
    using len run by (rule BasicFiltering_qc_rows)
  ultimately have "map fst [(''AAAC'', 10 # replicate 200 (1::rat))] = obs_names (obs r0)"
    and "map snd [(''AAAC'', 10 # replicate 200 (1::rat))] = X r0"
    by (metis map_fst_zip, metis map_snd_zip)
  then have "obs_names (obs r0) = [''AAAC''] \<and> X r0 = [10 # replicate 200 1]"
    by simp
  with run show ?thesis by blast
qed

lemma QC_Filter_spec_names:
  "map_sum id (\<lambda>a. obs_names (obs a)) (QC_Filter_spec cfg a)
     = Inr (select
         (map (\<lambda>row. count_nonzero row \<le> cfg_max_genes cfg \<and>
                     cfg_lower_genes cfg \<le> count_nonzero row \<and>
                     \<not> fgt (pct_counts
                              (map (\<lambda>g. list_ex (\<lambda>p. prefix p g) (cfg_mito_prefixes cfg))
                                 (var_names (var (filter_cells (cfg_min_genes cfg)
                                    (filter_genes (cfg_min_cells cfg) a))))) row)
                            (cfg_mito_cutoff cfg))
            (X (filter_cells (cfg_min_genes cfg) (filter_genes (cfg_min_cells cfg) a))))
         (obs_names (obs (filter_cells (cfg_min_genes cfg) (filter_genes (cfg_min_cells cfg) a)))))"
  by (simp add: QC_Filter_spec_def then_do_def calculate_qc_metrics_def set_flags_spec_def
      subset_obs_columns)

lemma example_big_spec_flags:
  "map (\<lambda>g. list_ex (\<lambda>p. prefix p g) [''mt-'']) (var_names (var example_big))
     = True # map (\<lambda>i. False) [0..<200]"
  by (simp add: example_big_def)

lemma QC_Filter_spec_example_big:
  "map_sum id (\<lambda>a. obs_names (obs a)) (QC_Filter_spec default_config example_big) = Inr [''AAAC'']"
  "map_sum id (\<lambda>a. obs_names (obs a)) (QC_Filter_spec example_config example_big)
     = Inr [''AAAC'', ''AAAG'']"
proof -
  note b = example_big_filtered [OF refl refl refl]
  have cfg: "cfg_max_genes default_config = 5000" "cfg_lower_genes default_config = 200"
    "cfg_mito_prefixes default_config = [''mt-'']" "cfg_min_genes default_config = 200"
    "cfg_min_cells default_config = 3" "cfg_mito_cutoff default_config = 10"
    "cfg_max_genes example_config = 5000" "cfg_lower_genes example_config = 200"
    "cfg_mito_prefixes example_config = [''mt-'']" "cfg_min_genes example_config = 200"
    "cfg_min_cells example_config = 3" "cfg_mito_cutoff example_config = 20"
    by (simp_all add: default_config_def example_config_def)
  have Xb: "X example_big = [10 # replicate 200 1, 40 # replicate 200 1, 100 # replicate 200 1]"
    by (simp add: example_big_def)
  show "map_sum id (\<lambda>a. obs_names (obs a)) (QC_Filter_spec default_config example_big)
          = Inr [''AAAC'']"
    unfolding QC_Filter_spec_names cfg b example_big_spec_flags Xb
    by (simp add: example_big_row fdiv_def)
  show "map_sum id (\<lambda>a. obs_names (obs a)) (QC_Filter_spec example_config example_big)
          = Inr [''AAAC'', ''AAAG'']"
    unfolding QC_Filter_spec_names cfg b example_big_spec_flags Xb
    by (simp add: example_big_row fdiv_def)
qed

section \<open>No step adds cells or genes\<close>

text \<open>
  Claim C1. Every filtering step of BasicFiltering returns a matrix with at most as many
  cells and at most as many genes as it was given, whatever the thresholds: the gene
  filter and the cell filter for every minimum, a row subset for every mask (so for
  every comparison a mask step could make), the three mask steps of the function, the
  cell drop inside per-cell normalization for every target, and the whole filtering
  part of the function whenever it returns, whatever the plotting calls do.
\<close>

theorem qc_filtering_never_adds:
  "n_obs (filter_genes min_cells a) \<le> n_obs a \<and> n_vars (filter_genes min_cells a) \<le> n_vars a \<and>
   n_obs (filter_cells min_genes a) \<le> n_obs a \<and> n_vars (filter_cells min_genes a) \<le> n_vars a \<and>
   n_obs (subset_obs msk a) \<le> n_obs a \<and> n_vars (subset_obs msk a) \<le> n_vars a \<and>
   (\<forall>a'. drop_high_genes a = Inr a' \<longrightarrow> n_obs a' \<le> n_obs a \<and> n_vars a' \<le> n_vars a) \<and>
   (\<forall>a'. drop_low_genes a = Inr a' \<longrightarrow> n_obs a' \<le> n_obs a \<and> n_vars a' \<le> n_vars a) \<and>
   (\<forall>a'. drop_high_mt a = Inr a' \<longrightarrow> n_obs a' \<le> n_obs a \<and> n_vars a' \<le> n_vars a) \<and>
   n_obs (normalize_per_cell t a) \<le> n_obs a \<and> n_vars (normalize_per_cell t a) \<le> n_vars a \<and>
   (\<forall>a'. BasicFiltering_qc lib a = Inr a' \<longrightarrow> n_obs a' \<le> n_obs a \<and> n_vars a' \<le> n_vars a)"
proof -
  have hi: "\<forall>a'. drop_high_genes a = Inr a' \<longrightarrow> n_obs a' \<le> n_obs a \<and> n_vars a' \<le> n_vars a"
    by (auto simp: drop_high_genes_def n_obs_subset_obs n_vars_subset_obs split: option.splits)
  have lo: "\<forall>a'. drop_low_genes a = Inr a' \<longrightarrow> n_obs a' \<le> n_obs a \<and> n_vars a' \<le> n_vars a"
    by (auto simp: drop_low_genes_def n_obs_subset_obs n_vars_subset_obs split: option.splits)
  have mi: "\<forall>a'. drop_high_mt a = Inr a' \<longrightarrow> n_obs a' \<le> n_obs a \<and> n_vars a' \<le> n_vars a"
    by (auto simp: drop_high_mt_def n_obs_subset_obs n_vars_subset_obs split: option.splits)
  show ?thesis
    using hi lo mi BasicFiltering_qc_counts [of lib a]
    by (simp add: filter_genes_counts filter_cells_counts normalize_per_cell_counts
        n_obs_subset_obs n_vars_subset_obs)
qed

theorem qc_filtering_never_adds_witness:
  "drop_high_genes example_qc = Inr (subset_obs [True, True, True] example_qc) \<and>
   n_obs (subset_obs [True, True, True] example_qc) \<le> n_obs example_qc \<and>
   drop_low_genes example_qc = Inr (subset_obs [False, False, False] example_qc) \<and>
   n_obs (subset_obs [False, False, False] example_qc) \<le> n_obs example_qc \<and>
   drop_high_mt example_qc = Inr (subset_obs [False, False, True] example_qc) \<and>
   n_obs (subset_obs [False, False, True] example_qc) \<le> n_obs example_qc \<and>
   (\<exists>r. BasicFiltering_qc example_lib example_big = Inr r \<and> obs_names (obs r) = [''AAAC''] \<and>
      n_obs r \<le> n_obs example_big \<and> n_vars r \<le> n_vars example_big)"
proof -
  have hi: "drop_high_genes example_qc = Inr (subset_obs [True, True, True] example_qc)"
    by (simp add: drop_high_genes_def example_qc_def)
  have lo: "drop_low_genes example_qc = Inr (subset_obs [False, False, False] example_qc)"
    by (simp add: drop_low_genes_def example_qc_def)
  have mi: "drop_high_mt example_qc = Inr (subset_obs [False, False, True] example_qc)"
    by (simp add: drop_high_mt_def example_qc_def)
  have steps: "n_obs (subset_obs [True, True, True] example_qc) \<le> n_obs example_qc \<and>
      n_obs (subset_obs [False, False, False] example_qc) \<le> n_obs example_qc \<and>
      n_obs (subset_obs [False, False, True] example_qc) \<le> n_obs example_qc"
    using hi lo mi qc_filtering_never_adds [of 3 example_qc 200 "[]" 1000 example_lib]
    by simp
  from example_big_run [OF refl refl refl]
  obtain r where run: "BasicFiltering_qc example_lib example_big = Inr r"
    and names: "obs_names (obs r) = [''AAAC'']"
    by blast
  from run qc_filtering_never_adds [of 3 example_big 200 "[]" 1000 example_lib]
  have "n_obs r \<le> n_obs example_big \<and> n_vars r \<le> n_vars example_big"
    by blast
  with run names have "\<exists>r. BasicFiltering_qc example_lib example_big = Inr r \<and>
      obs_names (obs r) = [''AAAC''] \<and> n_obs r \<le> n_obs example_big \<and> n_vars r \<le> n_vars example_big"
    by blast
  with hi lo mi steps show ?thesis
    by simp
qed

section \<open>Gene symbols are unique after loading\<close>

lemma next_free_fresh: "suffixed v (next_free v c values_set) \<notin> set values_set"
proof (induction v c values_set rule: next_free.induct)
  case (1 v c values_set)
  show ?case
  proof (cases "suffixed v (Suc c) \<in> set values_set")
    case True
    with "1.IH" show ?thesis
      by (subst next_free.simps) simp
  next
    case False
    then show ?thesis
      by (subst next_free.simps) simp
  qed
qed

lemma rename_dups_fresh:
  assumes "set vs \<subseteq> set values_set" and "set seen \<subseteq> set values_set"
  shows "distinct (rename_dups vs seen values_set counter) \<and>
         (\<forall>x \<in> set (rename_dups vs seen values_set counter).
            (x \<in> set vs \<and> x \<notin> set seen) \<or> x \<notin> set values_set)"
  using assms
proof (induction vs arbitrary: seen values_set counter)
  case Nil
  show ?case by simp
next
  case (Cons v vs)
  show ?case
  proof (cases "v \<in> set seen")
    case dup: True
    define c where "c = next_free v (counter v) values_set"
    define name where "name = suffixed v c"
    let ?rest = "rename_dups vs seen (name # values_set) (counter(v := c))"
    have fresh: "name \<notin> set values_set"
      unfolding name_def c_def by (rule next_free_fresh)
    have unfold: "rename_dups (v # vs) seen values_set counter = name # ?rest"
      using dup by (simp add: Let_def name_def c_def)
    from Cons.prems have "set vs \<subseteq> set (name # values_set)" "set seen \<subseteq> set (name # values_set)"
      by auto
    from Cons.IH [OF this]
    have d: "distinct ?rest"
      and r: "\<forall>x \<in> set ?rest. (x \<in> set vs \<and> x \<notin> set seen) \<or> x \<notin> set (name # values_set)"
      by blast+
    from r fresh Cons.prems have "name \<notin> set ?rest"
      by auto
    with d r fresh show ?thesis
      unfolding unfold by auto
  next
    case first: False
    let ?rest = "rename_dups vs (v # seen) values_set counter"
    have unfold: "rename_dups (v # vs) seen values_set counter = v # ?rest"
      using first by simp
    from Cons.prems have "set vs \<subseteq> set values_set" "set (v # seen) \<subseteq> set values_set"
      by auto
    from Cons.IH [OF this]
    have d: "distinct ?rest"
      and r: "\<forall>x \<in> set ?rest. (x \<in> set vs \<and> x \<notin> set (v # seen)) \<or> x \<notin> set values_set"
      by blast+
    from r Cons.prems have "v \<notin> set ?rest"
      by auto
    with d r first show ?thesis
      unfolding unfold by auto
  qed
qed

lemma distinct_make_index_unique: "distinct (make_index_unique index)"
proof (cases "distinct index")
  case True
  then show ?thesis by (simp add: make_index_unique_def)
next
  case False
  have "distinct (rename_dups index [] index (\<lambda>_. 0))"
    using rename_dups_fresh [of index index "[]"] by simp
  with False show ?thesis by (simp add: make_index_unique_def)
qed

lemma length_rename_dups: "length (rename_dups vs seen values_set counter) = length vs"
  by (induction vs arbitrary: seen values_set counter) (simp_all add: Let_def)

lemma length_make_index_unique: "length (make_index_unique index) = length index"
  by (simp add: make_index_unique_def length_rename_dups)

text \<open>
  Claim C9. After LoadData no two gene columns share a symbol. Whatever the files hold,
  a matrix that LoadData returns is the matrix read from them with its variable names
  made pairwise distinct: the number of genes, the counts and the cell annotations are
  those read, and renaming is a function of the symbols read (duplicates get the suffixes
  \<^verbatim>\<open>-1\<close>, \<^verbatim>\<open>-2\<close>, ... in order, skipping names already in use).
\<close>

theorem LoadData_gene_symbols_unique:
  assumes "LoadData read_10x_mtx gex_path = Inr a"
  shows "distinct (var_names (var a)) \<and>
         (\<exists>raw. read_10x_mtx gex_path = Inr raw \<and>
                var_names (var a) = make_index_unique (var_names (var raw)) \<and>
                n_vars a = n_vars raw \<and> X a = X raw \<and> obs a = obs raw)"
proof -
  from assms obtain raw where raw: "read_10x_mtx gex_path = Inr raw"
    and a: "a = var_names_make_unique raw"
    by (auto simp: LoadData_def split: sum.splits)
  have "distinct (var_names (var a))"
    by (simp add: a var_names_make_unique_def distinct_make_index_unique)
  moreover have "var_names (var a) = make_index_unique (var_names (var raw))"
    "n_vars a = n_vars raw" "X a = X raw" "obs a = obs raw"
    by (simp_all add: a var_names_make_unique_def n_vars_def length_make_index_unique)
  ultimately show ?thesis
    using raw by blast
qed

theorem LoadData_gene_symbols_unique_witness:
  "LoadData (\<lambda>path. Inr example_duplicates) ''./data/car1/''
     = Inr (var_names_make_unique example_duplicates) \<and>
   var_names (var (var_names_make_unique example_duplicates))
     = [''Gm1'', ''Gm1-2'', ''Gm1-1'', ''Actb'', ''Gm1-3''] \<and>
   distinct (var_names (var (var_names_make_unique example_duplicates)))"
proof -
  have load: "LoadData (\<lambda>path. Inr example_duplicates) ''./data/car1/''
                = Inr (var_names_make_unique example_duplicates)"
    by (simp add: LoadData_def)
  have names: "var_names (var (var_names_make_unique example_duplicates))
                 = [''Gm1'', ''Gm1-2'', ''Gm1-1'', ''Actb'', ''Gm1-3'']"
  proof -
    have "make_index_unique [''Gm1'', ''Gm1'', ''Gm1-1'', ''Actb'', ''Gm1'']
            = [''Gm1'', ''Gm1-2'', ''Gm1-1'', ''Actb'', ''Gm1-3'']"
      by code_simp
    then show ?thesis
      by (simp add: var_names_make_unique_def example_duplicates_def)
  qed
  from LoadData_gene_symbols_unique [OF load]
  have "distinct (var_names (var (var_names_make_unique example_duplicates)))"
    by (rule conjunct1)
  with load names show ?thesis
    by (intro conjI)
qed

section \<open>Merging: shared genes and concatenation\<close>

lemma set_unique_from: "set (unique_from seen xs) = set xs - set seen"
  by (induction xs arbitrary: seen) auto

lemma distinct_unique_from: "distinct (unique_from seen xs)"
  by (induction xs arbitrary: seen) (auto simp: set_unique_from)

lemma subseq_unique_from: "subseq (unique_from seen xs) xs"
  by (induction xs arbitrary: seen) auto

lemma set_intersection: "set (intersection left right) = set left \<inter> set right"
  by (auto simp: intersection_def unique_def set_unique_from)

lemma distinct_intersection: "distinct (intersection left right)"
  by (simp add: intersection_def unique_def distinct_unique_from)

lemma subseq_intersection: "subseq (intersection left right) left"
proof -
  have "subseq (intersection left right) (filter (\<lambda>g. g \<in> set right) left)"
    by (simp add: intersection_def unique_def subseq_unique_from)
  also have "subseq (filter (\<lambda>g. g \<in> set right) left) left"
    by (rule subseq_filter_left)
  finally show ?thesis .
qed

text \<open>
  Claim C7. The gene-set intersection taken before merging is commutative as a set: for
  all variable-name indexes \<open>A\<close> and \<open>B\<close> the two orders of the call hold exactly the
  names that are in both. The column order of the result is determined by the inputs:
  it lists each shared name once, in the order of the left index. Gene sets A, B, C and
  B, C, D intersect to exactly B, C, in either order of the call.
\<close>

theorem intersection_commutative:
  "set (intersection A B) = set (intersection B A) \<and>
   set (intersection A B) = set A \<inter> set B \<and>
   distinct (intersection A B) \<and>
   subseq (intersection A B) A \<and>
   intersection [''A'', ''B'', ''C''] [''B'', ''C'', ''D''] = [''B'', ''C''] \<and>
   intersection [''B'', ''C'', ''D''] [''A'', ''B'', ''C''] = [''B'', ''C'']"
proof -
  have "set (intersection A B) = set (intersection B A)"
    by (auto simp: set_intersection)
  moreover have "intersection [''A'', ''B'', ''C''] [''B'', ''C'', ''D''] = [''B'', ''C'']"
    by (simp add: intersection_def unique_def)
  moreover have "intersection [''B'', ''C'', ''D''] [''A'', ''B'', ''C''] = [''B'', ''C'']"
    by (simp add: intersection_def unique_def)
  ultimately show ?thesis
    by (simp add: set_intersection distinct_intersection subseq_intersection)
qed

lemma n_obs_concatenate: "n_obs (concatenate a b) = n_obs a + n_obs b"
  by (simp add: concatenate_def Let_def n_obs_def)

lemma length_X_concatenate: "length (X (concatenate a b)) = length (X a) + length (X b)"
  by (simp add: concatenate_def Let_def reindex_vars_def)

lemma sample_concatenate:
  "sample (obs a) = Some sa \<Longrightarrow> sample (obs b) = Some sb \<Longrightarrow>
   sample (obs (concatenate a b)) = Some (sa @ sb)"
  by (simp add: concatenate_def Let_def concat_col_def)

lemma batch_concatenate:
  "batch (obs (concatenate a b)) = Some (replicate (n_obs a) ''0'' @ replicate (n_obs b) ''1'')"
  by (simp add: concatenate_def Let_def)

text \<open>
  Claim C8. Concatenation along the cell axis keeps every cell: the merged matrix has
  exactly as many cells (index entries and matrix rows) as the two inputs together.
  Every cell carries its origin: the \<^verbatim>\<open>batch\<close> column is \<^verbatim>\<open>0\<close> on the cells of the first
  input and \<^verbatim>\<open>1\<close> on those of the second, and when both inputs have a \<^verbatim>\<open>sample\<close> column
  the merged column is the first input's labels followed by the second's.
\<close>

theorem concatenate_preserves_cells:
  "n_obs (concatenate a b) = n_obs a + n_obs b \<and>
   length (X (concatenate a b)) = length (X a) + length (X b) \<and>
   batch (obs (concatenate a b)) = Some (replicate (n_obs a) ''0'' @ replicate (n_obs b) ''1'') \<and>
   (\<forall>sa sb. sample (obs a) = Some sa \<and> sample (obs b) = Some sb \<longrightarrow>
      sample (obs (concatenate a b)) = Some (sa @ sb))"
  by (simp add: n_obs_concatenate length_X_concatenate batch_concatenate sample_concatenate)

theorem concatenate_preserves_cells_witness:
  "sample (obs (set_sample ''Naive'' example_raw)) = Some [''Naive'', ''Naive'', ''Naive''] \<and>
   sample (obs (set_sample ''Car1'' example_raw)) = Some [''Car1'', ''Car1'', ''Car1''] \<and>
   n_obs (concatenate (set_sample ''Naive'' example_raw) (set_sample ''Car1'' example_raw)) = 6 \<and>
   sample (obs (concatenate (set_sample ''Naive'' example_raw) (set_sample ''Car1'' example_raw)))
     = Some [''Naive'', ''Naive'', ''Naive'', ''Car1'', ''Car1'', ''Car1'']"
proof -
  have n: "n_obs (set_sample ''Naive'' example_raw) = 3" "n_obs (set_sample ''Car1'' example_raw) = 3"
    by (simp_all add: set_sample_def example_raw_def n_obs_def)
  have sa: "sample (obs (set_sample ''Naive'' example_raw)) = Some [''Naive'', ''Naive'', ''Naive'']"
    by (simp add: set_sample_def example_raw_def n_obs_def numeral_3_eq_3)
  have sb: "sample (obs (set_sample ''Car1'' example_raw)) = Some [''Car1'', ''Car1'', ''Car1'']"
    by (simp add: set_sample_def example_raw_def n_obs_def numeral_3_eq_3)
  show ?thesis
    using sa sb n
      concatenate_preserves_cells [of "set_sample ''Naive'' example_raw" "set_sample ''Car1'' example_raw"]
    by simp
qed

section \<open>The merge cell reads a name that was never assigned\<close>

lemma load_cell_env:
  assumes "load_cell read_10x_mtx lib name gex_path label env = Inr env'"
  shows "\<exists>a. env' = env(name \<mapsto> AData a)"
  using assms
  by (auto simp: load_cell_def then_do_def split: sum.splits)

lemma cluster_cell_env:
  assumes "cluster_cell Clustering name env = Inr env'"
  shows "\<exists>a. env' = env(name \<mapsto> AData a)"
  using assms
  by (auto simp: cluster_cell_def then_do_def split: sum.splits)

lemma cells_before_merge_env:
  assumes "cells_before_merge read_10x_mtx lib Clustering = Inr env"
  shows "env ''naive_treated'' = None \<and>
         (\<exists>n. env ''naive'' = Some (AData n)) \<and> (\<exists>c. env ''car1'' = Some (AData c))"
proof -
  from assms obtain e1 e2 e3
    where 1: "load_cell read_10x_mtx lib ''car1'' ''./data/car1/'' ''Car1'' Map.empty = Inr e1"
      and 2: "load_cell read_10x_mtx lib ''naive'' ''./data/naive/'' ''Naive'' e1 = Inr e2"
      and 3: "cluster_cell Clustering ''naive'' e2 = Inr e3"
      and 4: "cluster_cell Clustering ''car1'' e3 = Inr env"
    by (auto simp: cells_before_merge_def then_do_def split: sum.splits)
  from load_cell_env [OF 1] obtain a1 where e1: "e1 = Map.empty(''car1'' \<mapsto> AData a1)" ..
  from load_cell_env [OF 2] obtain a2 where e2: "e2 = e1(''naive'' \<mapsto> AData a2)" ..
  from cluster_cell_env [OF 3] obtain a3 where e3: "e3 = e2(''naive'' \<mapsto> AData a3)" ..
  from cluster_cell_env [OF 4] obtain a4 where e4: "env = e3(''car1'' \<mapsto> AData a4)" ..
  show ?thesis
    by (simp add: e1 e2 e3 e4)
qed

lemma merge_cell_NameError:
  assumes "env ''naive_treated'' = None"
    and "env ''naive'' = Some (AData n)" and "env ''car1'' = Some (AData c)"
  shows "merge_cell Clustering env = Inl (NameError ''naive_treated'')"
  using assms by (simp add: merge_cell_def then_do_def get_adata_def Let_def)

lemma distinct_example_big_genes: "distinct (var_names (var example_big))"
proof -
  have "inj_on (\<lambda>i. ''Gene'' @ str_nat i) (set [0..<200])"
    by (rule inj_onI) (simp add: str_nat_inj)
  then have "distinct (map (\<lambda>i. ''Gene'' @ str_nat i) [0..<200])"
    by (simp add: distinct_map)
  moreover have "''mt-Nd1'' \<notin> set (map (\<lambda>i. ''Gene'' @ str_nat i) [0..<200])"
    by auto
  ultimately show ?thesis
    by (simp add: example_big_def)
qed

lemma load_cell_example_big:
  "\<exists>a. load_cell (\<lambda>path. Inr example_big) example_lib name gex_path label env
         = Inr (env(name \<mapsto> AData a))"
proof -
  let ?a = "set_sample label (var_names_make_unique example_big)"
  have genes: "var_names (var ?a) = var_names (var example_big)"
    using distinct_example_big_genes
    by (simp add: set_sample_def var_names_make_unique_def make_index_unique_def)
  have X: "X ?a = X example_big" and names: "obs_names (obs ?a) = obs_names (obs example_big)"
    by (simp_all add: set_sample_def var_names_make_unique_def)
  from example_big_run [OF X names genes]
  obtain r where "BasicFiltering_qc example_lib ?a = Inr r"
    by blast
  then have "load_cell (\<lambda>path. Inr example_big) example_lib name gex_path label env
               = Inr (env(name \<mapsto> AData (normalize_per_cell 1000 r)))"
    by (simp add: load_cell_def LoadData_def BasicFiltering_def then_do_def example_lib_def)
  then show ?thesis ..
qed

lemma cells_before_merge_example_big:
  "\<exists>env. cells_before_merge (\<lambda>path. Inr example_big) example_lib Inr = Inr env"
proof -
  from load_cell_example_big [of "''car1''" "''./data/car1/''" "''Car1''" Map.empty]
  obtain a1 where 1: "load_cell (\<lambda>path. Inr example_big) example_lib ''car1'' ''./data/car1/''
                        ''Car1'' Map.empty = Inr (Map.empty(''car1'' \<mapsto> AData a1))" ..
  from load_cell_example_big [of "''naive''" "''./data/naive/''" "''Naive''"
      "Map.empty(''car1'' \<mapsto> AData a1)"]
  obtain a2 where 2: "load_cell (\<lambda>path. Inr example_big) example_lib ''naive'' ''./data/naive/''
                        ''Naive'' (Map.empty(''car1'' \<mapsto> AData a1))
                        = Inr ((Map.empty(''car1'' \<mapsto> AData a1))(''naive'' \<mapsto> AData a2))" ..
  show ?thesis
    by (simp add: cells_before_merge_def then_do_def 1 2 cluster_cell_def get_adata_def)
qed

text \<open>
  Claim C2, as the code behaves. The merged matrix is never built. For all file contents
  and all behaviours of the library stages: if one of the four cells before the merge
  raises, the run stops with that error; otherwise the merge cell raises
  \<^verbatim>\<open>NameError\<close> for \<^verbatim>\<open>naive_treated\<close> at line 220, before any subsetting or concatenation.
  The second case occurs: reading the example with 201 genes for both samples, with
  plotting calls that raise only on a matrix without cells and with numerical stages
  and a clustering that return, the cells before the merge complete and the run ends
  in the \<^verbatim>\<open>NameError\<close>.
\<close>

theorem merge_cell_undefined_name:
  "(case cells_before_merge read_10x_mtx lib Clustering of
      Inl e \<Rightarrow> notebook read_10x_mtx lib Clustering = Inl e
    | Inr env \<Rightarrow> merge_cell Clustering env = Inl (NameError ''naive_treated'') \<and>
        notebook read_10x_mtx lib Clustering = Inl (NameError ''naive_treated'')) \<and>
   notebook (\<lambda>path. Inr example_big) example_lib Inr = Inl (NameError ''naive_treated'')"
proof -
  have general: "\<And>rd lb cl. case cells_before_merge rd lb cl of
      Inl e \<Rightarrow> notebook rd lb cl = Inl e
    | Inr env \<Rightarrow> merge_cell cl env = Inl (NameError ''naive_treated'') \<and>
        notebook rd lb cl = Inl (NameError ''naive_treated'')"
  proof -
    fix rd lb cl
    show "case cells_before_merge rd lb cl of
        Inl e \<Rightarrow> notebook rd lb cl = Inl e
      | Inr env \<Rightarrow> merge_cell cl env = Inl (NameError ''naive_treated'') \<and>
          notebook rd lb cl = Inl (NameError ''naive_treated'')"
    proof (cases "cells_before_merge rd lb cl")
      case (Inl e)
      then show ?thesis
        by (simp add: notebook_def then_do_def)
    next
      case (Inr env)
      from cells_before_merge_env [OF Inr] obtain n c
        where "env ''naive_treated'' = None" "env ''naive'' = Some (AData n)"
          "env ''car1'' = Some (AData c)"
        by blast
      then have "merge_cell cl env = Inl (NameError ''naive_treated'')"
        by (rule merge_cell_NameError)
      with Inr show ?thesis
        by (simp add: notebook_def then_do_def)
    qed
  qed
  from cells_before_merge_example_big
  obtain env where "cells_before_merge (\<lambda>path. Inr example_big) example_lib Inr = Inr env" ..
  with general [of "\<lambda>path. Inr example_big" example_lib Inr]
  have "notebook (\<lambda>path. Inr example_big) example_lib Inr = Inl (NameError ''naive_treated'')"
    by simp
  with general [of read_10x_mtx lib Clustering] show ?thesis
    by simp
qed

text \<open>
  Claim C10. Each cell-removal step of BasicFiltering only deletes rows. On a
  well-formed matrix, when the step returns, the cells of its result (barcode, every
  per-cell annotation value including the \<^verbatim>\<open>sample\<close> label, and matrix row) form a
  subsequence of the cells of its input: survivors are unchanged and keep their order.
  The view covers every cell of the result, the per-gene frame is the input's, and the
  result is well formed again; in particular each surviving row still has one entry
  per gene.
\<close>

theorem cell_removal_only_deletes_rows:
  assumes "wf_adata a"
  shows "\<forall>step \<in> {drop_high_genes, drop_low_genes, drop_high_mt}. \<forall>a'. step a = Inr a' \<longrightarrow>
           subseq (cells a') (cells a) \<and> length (cells a') = n_obs a' \<and>
           var a' = var a \<and> wf_adata a'"
proof -
  have frame: "subseq (cells (subset_obs msk a)) (cells a) \<and>
               length (cells (subset_obs msk a)) = n_obs (subset_obs msk a) \<and>
               var (subset_obs msk a) = var a \<and> wf_adata (subset_obs msk a)"
    if "length msk = n_obs a" for msk
  proof -
    have "wf_adata (subset_obs msk a)"
      using assms that by (rule wf_subset_obs)
    moreover from this have "length (cells (subset_obs msk a)) = n_obs (subset_obs msk a)"
      by (rule length_cells)
    moreover have "subseq (cells (subset_obs msk a)) (cells a)"
      unfolding cells_subset_obs [OF assms that] by (rule subseq_select)
    ultimately show ?thesis
      by (simp add: subset_obs_columns)
  qed
  have ng: "length col = n_obs a" if "n_genes_by_counts (obs a) = Some col" for col
    using assms that by (simp add: wf_adata_def col_len_def)
  have pm: "length col = n_obs a" if "pct_counts_mt (obs a) = Some col" for col
    using assms that by (simp add: wf_adata_def col_len_def)
  have hi: "subseq (cells a') (cells a) \<and> length (cells a') = n_obs a' \<and>
            var a' = var a \<and> wf_adata a'" if "drop_high_genes a = Inr a'" for a'
  proof (cases "n_genes_by_counts (obs a)")
    case None
    with that show ?thesis by (simp add: drop_high_genes_def)
  next
    case (Some col)
    with that have "a' = subset_obs (map (\<lambda>n. n < 5000) col) a"
      by (simp add: drop_high_genes_def)
    with frame [of "map (\<lambda>n. n < 5000) col"] ng [OF Some] show ?thesis by simp
  qed
  have lo: "subseq (cells a') (cells a) \<and> length (cells a') = n_obs a' \<and>
            var a' = var a \<and> wf_adata a'" if "drop_low_genes a = Inr a'" for a'
  proof (cases "n_genes_by_counts (obs a)")
    case None
    with that show ?thesis by (simp add: drop_low_genes_def)
  next
    case (Some col)
    with that have "a' = subset_obs (map (\<lambda>n. 200 < n) col) a"
      by (simp add: drop_low_genes_def)
    with frame [of "map (\<lambda>n. 200 < n) col"] ng [OF Some] show ?thesis by simp
  qed
  have mi: "subseq (cells a') (cells a) \<and> length (cells a') = n_obs a' \<and>
            var a' = var a \<and> wf_adata a'" if "drop_high_mt a = Inr a'" for a'
  proof (cases "pct_counts_mt (obs a)")
    case None
    with that show ?thesis by (simp add: drop_high_mt_def)
  next
    case (Some col)
    with that have "a' = subset_obs (map (\<lambda>p. flt p 10) col) a"
      by (simp add: drop_high_mt_def)
    with frame [of "map (\<lambda>p. flt p 10) col"] pm [OF Some] show ?thesis by simp
  qed
  from hi lo mi show ?thesis by blast
qed

lemma wf_example_qc: "wf_adata example_qc"
  by (simp add: wf_adata_def example_qc_def n_obs_def n_vars_def col_len_def)

lemma drop_high_mt_example_qc:
  "drop_high_mt example_qc = Inr (subset_obs [False, False, True] example_qc)"
  by (simp add: drop_high_mt_def example_qc_def)

theorem cell_removal_only_deletes_rows_witness:
  "wf_adata example_qc \<and>
   drop_high_mt example_qc = Inr (subset_obs [False, False, True] example_qc) \<and>
   subseq (cells (subset_obs [False, False, True] example_qc)) (cells example_qc) \<and>
   var (subset_obs [False, False, True] example_qc) = var example_qc"
proof -
  from cell_removal_only_deletes_rows [OF wf_example_qc]
  have "\<forall>a'. drop_high_mt example_qc = Inr a' \<longrightarrow>
          subseq (cells a') (cells example_qc) \<and> length (cells a') = n_obs a' \<and>
          var a' = var example_qc \<and> wf_adata a'"
    by blast
  with drop_high_mt_example_qc wf_example_qc show ?thesis
    by blast
qed

section \<open>The mitochondrial cutoff\<close>

text \<open>
  Claim C3, as the code behaves. The mask of line 121 is \<^verbatim>\<open>pct_counts_mt < 10\<close>: the
  step keeps exactly the cells whose mitochondrial percentage is below 10 and drops
  every other cell (10 or more, or not a number). On a matrix whose percentage column
  has one entry per cell, the step returns, and the surviving (barcode, percentage)
  pairs are the input pairs that satisfy the comparison, in order. A cell at 15 percent
  is dropped, and so is a cell at exactly 10 percent.
\<close>

theorem mt_step_keeps_below_ten:
  assumes "pct_counts_mt (obs a) = Some col" and "length col = n_obs a"
  shows "\<exists>a'. drop_high_mt a = Inr a' \<and>
           pct_counts_mt (obs a') = Some (filter (\<lambda>p. flt p 10) col) \<and>
           zip (obs_names (obs a')) (filter (\<lambda>p. flt p 10) col)
             = filter (\<lambda>(name, p). flt p 10) (zip (obs_names (obs a)) col) \<and>
           (\<forall>q. flt (Fin q) 10 = (q < 10)) \<and> \<not> flt (Fin 15) 10 \<and> \<not> flt (Fin 10) 10 \<and>
           \<not> flt NaN 10"
proof -
  let ?msk = "map (\<lambda>p. flt p 10) col"
  have step: "drop_high_mt a = Inr (subset_obs ?msk a)"
    using assms(1) by (rule drop_high_mt_Some)
  have col': "pct_counts_mt (obs (subset_obs ?msk a)) = Some (filter (\<lambda>p. flt p 10) col)"
    by (simp add: subset_obs_columns assms(1) select_map_self)
  have "length (obs_names (obs a)) = length col"
    using assms(2) by (simp add: n_obs_def)
  then have "zip (select ?msk (obs_names (obs a))) (select ?msk col)
               = filter (\<lambda>(name, p). flt p 10) (zip (obs_names (obs a)) col)"
    by (rule select_by_column)
  then have "zip (obs_names (obs (subset_obs ?msk a))) (filter (\<lambda>p. flt p 10) col)
               = filter (\<lambda>(name, p). flt p 10) (zip (obs_names (obs a)) col)"
    by (simp add: subset_obs_columns select_map_self)
  with step col' show ?thesis
    by simp
qed

theorem mt_step_keeps_below_ten_witness:
  "pct_counts_mt (obs example_qc) = Some [Fin 15, Fin 10, Fin 5] \<and>
   length [Fin 15, Fin 10, Fin 5] = n_obs example_qc \<and>
   (\<exists>a'. drop_high_mt example_qc = Inr a' \<and>
      zip (obs_names (obs a')) [Fin 5] = [(''AAAT'', Fin 5)])"
proof -
  have col: "pct_counts_mt (obs example_qc) = Some [Fin 15, Fin 10, Fin 5]"
    by (simp add: example_qc_def)
  have len: "length [Fin 15, Fin 10, Fin 5] = n_obs example_qc"
    by (simp add: example_qc_def n_obs_def)
  have names: "obs_names (obs example_qc) = [''AAAC'', ''AAAG'', ''AAAT'']"
    by (simp add: example_qc_def)
  from mt_step_keeps_below_ten [OF col len]
  have "\<exists>a'. drop_high_mt example_qc = Inr a' \<and>
          zip (obs_names (obs a')) [Fin 5] = [(''AAAT'', Fin 5)]"
    by (auto simp: names)
  with col len show ?thesis
    by (intro conjI)
qed

text \<open>
  The cell \<^verbatim>\<open>AAAG\<close> of the example has 10 of its 100 counts on the mitochondrial gene: its
  percentage is exactly 10, and the step drops it.
\<close>

theorem mt_boundary_counterexample:
  "calculate_qc_metrics (set_mt_ribo example_raw) = Inr example_qc \<and>
   zip (obs_names (obs example_qc)) (the (pct_counts_mt (obs example_qc)))
     = [(''AAAC'', Fin 15), (''AAAG'', Fin 10), (''AAAT'', Fin 5)] \<and>
   map_sum id (\<lambda>a. obs_names (obs a)) (drop_high_mt example_qc) = Inr [''AAAT'']"
proof -
  have "zip (obs_names (obs example_qc)) (the (pct_counts_mt (obs example_qc)))
          = [(''AAAC'', Fin 15), (''AAAG'', Fin 10), (''AAAT'', Fin 5)]"
    by (simp add: example_qc_def)
  moreover have "map_sum id (\<lambda>a. obs_names (obs a)) (drop_high_mt example_qc) = Inr [''AAAT'']"
    by (simp add: drop_high_mt_example_qc subset_obs_columns) (simp add: example_qc_def)
  ultimately show ?thesis
    using example_qc_computed by simp
qed

section \<open>Per-cell normalization\<close>

lemma sum_list_divide: "sum_list (map (\<lambda>x. x / c) row) = sum_list row / (c :: rat)"
  by (induction row) (simp_all add: add_divide_distrib)

lemma X_normalize_per_cell:
  "X (normalize_per_cell T a) = map (normalize_row T) (filter (\<lambda>row. 1 \<le> sum_list row) (X a))"
proof -
  have "map (\<lambda>s. 1 \<le> s) (map sum_list (X a)) = map (\<lambda>row. 1 \<le> sum_list row) (X a)"
    by simp
  then have "select (map (\<lambda>s. 1 \<le> s) (map sum_list (X a))) (X a)
               = filter (\<lambda>row. 1 \<le> sum_list row) (X a)"
    by (simp only: select_map_self)
  then show ?thesis
    by (simp add: normalize_per_cell_def Let_def subset_obs_columns)
qed

lemma normalize_row_fixed:
  assumes "sum_list row = T" and "T \<noteq> 0"
  shows "normalize_row T row = row"
  using assms by (simp add: normalize_row_def Let_def)

lemma sum_list_normalize_row:
  assumes "1 \<le> sum_list row" and "T \<noteq> 0"
  shows "sum_list (normalize_row T row) = T"
proof -
  from assms(1) have nz: "sum_list row \<noteq> 0" by auto
  have "normalize_row T row = map (\<lambda>x. x / (sum_list row / T)) row"
    by (simp only: normalize_row_def Let_def nz if_False)
  then have "sum_list (normalize_row T row) = sum_list row / (sum_list row / T)"
    by (simp only: sum_list_divide)
  also have "\<dots> = T"
    using nz assms(2) by simp
  finally show ?thesis .
qed

text \<open>
  Claim C6. Per-cell normalization is idempotent up to its target. If every row of the
  matrix already sums to the target, every row of the result sums to the target; for a
  target of at least 1 (the call passes 1000) no cell is dropped and the matrix is
  unchanged entry by entry, and normalizing any matrix twice gives the same matrix as
  normalizing it once. (Below 1 the library's minimum total of 1 drops every such cell.)
\<close>

theorem normalize_per_cell_idempotent:
  assumes "list_all (\<lambda>row. sum_list row = T) (X a)"
  shows "list_all (\<lambda>row. sum_list row = T) (X (normalize_per_cell T a)) \<and>
         (1 \<le> T \<longrightarrow> X (normalize_per_cell T a) = X a \<and>
            X (normalize_per_cell T (normalize_per_cell T b)) = X (normalize_per_cell T b))"
proof -
  have sums: "\<forall>row \<in> set (X a). sum_list row = T"
    using assms by (simp add: list_all_iff)
  have weak: "list_all (\<lambda>row. sum_list row = T) (X (normalize_per_cell T a))"
  proof (cases "1 \<le> T")
    case True
    then have "T \<noteq> 0" by auto
    with sums have "\<forall>row \<in> set (X a). sum_list (normalize_row T row) = T"
      by (simp add: normalize_row_fixed)
    then show ?thesis
      by (simp add: X_normalize_per_cell list_all_iff)
  next
    case False
    with sums have "filter (\<lambda>row. 1 \<le> sum_list row) (X a) = []"
      by (simp add: filter_empty_conv)
    then show ?thesis
      by (simp add: X_normalize_per_cell)
  qed
  have strong: "X (normalize_per_cell T c) = X c"
    if "1 \<le> T" and "\<forall>row \<in> set (X c). sum_list row = T" for c
  proof -
    from that(1) have nz: "T \<noteq> 0" by auto
    from that have "filter (\<lambda>row. 1 \<le> sum_list row) (X c) = X c"
      by (simp add: filter_id_conv)
    moreover from that(2) nz have "map (normalize_row T) (X c) = X c"
      by (simp add: map_idI normalize_row_fixed)
    ultimately show ?thesis
      by (simp add: X_normalize_per_cell)
  qed
  have twice: "X (normalize_per_cell T (normalize_per_cell T b)) = X (normalize_per_cell T b)"
    if "1 \<le> T"
  proof -
    from that have nz: "T \<noteq> 0" by auto
    have "\<forall>row \<in> set (X (normalize_per_cell T b)). sum_list row = T"
      using nz by (auto simp: X_normalize_per_cell sum_list_normalize_row)
    with that show ?thesis by (rule strong)
  qed
  from weak strong [OF _ sums] twice show ?thesis
    by blast
qed

theorem normalize_per_cell_idempotent_witness:
  "list_all (\<lambda>row. sum_list row = 1000) (X example_normalized) \<and>
   X (normalize_per_cell 1000 example_normalized) = X example_normalized"
proof -
  have sums: "list_all (\<lambda>row. sum_list row = 1000) (X example_normalized)"
    by (simp add: example_normalized_def)
  from normalize_per_cell_idempotent [OF sums]
  have "X (normalize_per_cell 1000 example_normalized) = X example_normalized"
    by simp
  with sums show ?thesis ..
qed

section \<open>The two lower bounds on the gene count\<close>

lemma example_200_passes:
  "X (filter_cells 200 example_200) = [replicate 200 1]"
  "obs_names (obs (filter_cells 200 example_200)) = [''AAAC'']"
  by (simp_all add: X_filter_cells obs_names_filter_cells example_200_def filter_replicate)

lemma count_nonzero_example_200: "count_nonzero (replicate 200 1) = 200"
  by (simp add: count_nonzero_def filter_replicate)

text \<open>
  Claim C4, as the code behaves. Step 2 keeps the cells that express at least 200 genes
  (\<^verbatim>\<open>min_genes=200\<close>), while the mask of line 117 keeps \<^verbatim>\<open>n_genes_by_counts > 200\<close>. On a
  matrix of non-negative counts that has passed step 2, and after the metrics are
  computed, the step of line 117 returns, and the (barcode, row) pairs it keeps are
  exactly the pairs whose row does not express exactly 200 genes: it removes the cells
  with exactly 200 expressed genes and no others.
\<close>

theorem low_gene_step_removes_exactly_200:
  assumes len: "length (X a) = n_obs a" and nonneg: "list_all (list_all (\<lambda>x. 0 \<le> x)) (X a)"
  shows "\<exists>q r. calculate_qc_metrics (set_mt_ribo (filter_cells 200 a)) = Inr q \<and>
           drop_low_genes q = Inr r \<and>
           zip (obs_names (obs r)) (X r)
             = filter (\<lambda>(name, row). count_nonzero row \<noteq> 200)
                 (zip (obs_names (obs (filter_cells 200 a))) (X (filter_cells 200 a)))"
proof -
  let ?b = "filter_cells 200 a"
  let ?fl = "map (\<lambda>g. prefix ''mt-'' g) (var_names (var ?b))"
  define q where "q = (set_mt_ribo ?b)\<lparr>obs := (obs ?b)
            \<lparr>n_genes_by_counts := Some (map count_nonzero (X ?b)),
             total_counts := Some (map sum_list (X ?b)),
             pct_counts_mt := Some (map (pct_counts ?fl) (X ?b)),
             pct_counts_ribo :=
               Some (map (pct_counts
                 (map (\<lambda>g. prefix ''Rps'' g \<or> prefix ''Rpl'' g) (var_names (var ?b)))) (X ?b))\<rparr>\<rparr>"
  have calc: "calculate_qc_metrics (set_mt_ribo ?b) = Inr q"
    unfolding q_def by (rule calculate_qc_metrics_set_mt_ribo)
  have Xq: "X q = X ?b" and nq: "obs_names (obs q) = obs_names (obs ?b)"
    by (simp_all add: q_def set_mt_ribo_def)
  have ng: "n_genes_by_counts (obs q) = Some (map count_nonzero (X q))"
    and pm: "pct_counts_mt (obs q) = Some (map (pct_counts ?fl) (X q))"
    by (simp_all add: q_def set_mt_ribo_def)
  have lq: "length (obs_names (obs q)) = length (X q)"
    using length_X_filter_cells [OF len, of 200] by (simp add: Xq nq n_obs_def)
  let ?r = "subset_obs (map (\<lambda>row. 200 < count_nonzero row) (X q)) q"
  have step: "drop_low_genes q = Inr ?r"
    using ng pm by (rule drop_steps_by_rows)
  have "zip (obs_names (obs ?r)) (X ?r)
          = filter (\<lambda>(name, row). 200 < count_nonzero row) (zip (obs_names (obs q)) (X q))"
    using ng pm lq by (rule subset_obs_rows)
  also have "\<dots> = filter (\<lambda>(name, row). count_nonzero row \<noteq> 200) (zip (obs_names (obs q)) (X q))"
  proof (rule filter_cong [OF refl])
    fix z assume "z \<in> set (zip (obs_names (obs q)) (X q))"
    then have "(fst z, snd z) \<in> set (zip (obs_names (obs q)) (X q))"
      by simp
    then have "snd z \<in> set (X q)"
      by (rule set_zip_rightD)
    then have "snd z \<in> set (X ?b)"
      by (simp only: Xq)
    then have in_a: "snd z \<in> set (X a)" and passed: "200 \<le> length (filter (\<lambda>x. 0 < x) (snd z))"
      by (simp_all add: X_filter_cells)
    from in_a nonneg have "count_nonzero (snd z) = length (filter (\<lambda>x. 0 < x) (snd z))"
      by (intro count_nonzero_nonneg) (simp add: list_all_iff)
    with passed show "(case z of (name, row) \<Rightarrow> 200 < count_nonzero row)
                    = (case z of (name, row) \<Rightarrow> count_nonzero row \<noteq> 200)"
      by (cases z) auto
  qed
  finally have "zip (obs_names (obs ?r)) (X ?r)
      = filter (\<lambda>(name, row). count_nonzero row \<noteq> 200) (zip (obs_names (obs ?b)) (X ?b))"
    by (simp only: Xq nq)
  with calc step show ?thesis by blast
qed

theorem low_gene_step_removes_exactly_200_witness:
  "length (X example_200) = n_obs example_200 \<and>
   list_all (list_all (\<lambda>x. 0 \<le> x)) (X example_200) \<and>
   (\<exists>q r. calculate_qc_metrics (set_mt_ribo (filter_cells 200 example_200)) = Inr q \<and>
      drop_low_genes q = Inr r \<and> zip (obs_names (obs r)) (X r) = [])"
proof -
  have len: "length (X example_200) = n_obs example_200"
    by (simp add: example_200_def n_obs_def)
  have nonneg: "list_all (list_all (\<lambda>x. 0 \<le> x)) (X example_200)"
    by (simp add: example_200_def list_all_iff)
  from low_gene_step_removes_exactly_200 [OF len nonneg]
  have "\<exists>q r. calculate_qc_metrics (set_mt_ribo (filter_cells 200 example_200)) = Inr q \<and>
      drop_low_genes q = Inr r \<and> zip (obs_names (obs r)) (X r) = []"
    by (simp add: example_200_passes count_nonzero_example_200)
  with len nonneg show ?thesis
    by (intro conjI)
qed

text \<open>
  The cell of \<open>example_200\<close> expresses exactly 200 genes: it passes step 2, and the step
  of line 117 then removes it.
\<close>

theorem low_gene_step_not_redundant_counterexample:
  "n_obs (filter_cells 200 example_200) = 1 \<and>
   map_sum id n_obs
     (then_do (calculate_qc_metrics (set_mt_ribo (filter_cells 200 example_200))) drop_low_genes)
     = Inr 0"
proof -
  let ?b = "filter_cells 200 example_200"
  note Xb = example_200_passes(1) and nb = example_200_passes(2)
  obtain q where calc: "calculate_qc_metrics (set_mt_ribo ?b) = Inr q"
    and ng: "n_genes_by_counts (obs q) = Some (map count_nonzero (X ?b))"
    by (simp add: calculate_qc_metrics_set_mt_ribo)
  have "map count_nonzero (X ?b) = [200]"
    by (simp add: Xb count_nonzero_example_200)
  with ng have "drop_low_genes q = Inr (subset_obs [False] q)"
    by (simp add: drop_low_genes_def)
  moreover have "n_obs (subset_obs [False] q) = 0"
    by (cases "obs_names (obs q)") (simp_all add: n_obs_def subset_obs_columns)
  ultimately have "map_sum id n_obs (then_do (calculate_qc_metrics (set_mt_ribo ?b)) drop_low_genes)
                     = Inr 0"
    by (simp add: calc then_do_def)
  moreover have "n_obs ?b = 1"
    by (simp add: n_obs_def nb)
  ultimately show ?thesis by simp
qed

section \<open>The thresholds are literals of BasicFiltering\<close>

text \<open>
  Claim C5, as the code behaves. \<^verbatim>\<open>BasicFiltering(adata)\<close> takes the matrix and nothing
  else; its thresholds and name patterns are literals. On a matrix with one row per
  cell, whenever the filtering part returns: the (barcode, row) pairs of its result are
  those pairs of the matrix after \<^verbatim>\<open>filter_genes(min_cells=3)\<close> and
  \<^verbatim>\<open>filter_cells(min_genes=200)\<close> whose row has fewer than 5000 and more than 200 non-zero
  entries and a percentage of counts on genes with prefix \<^verbatim>\<open>mt-\<close> below 10; the genes
  are those the gene filter keeps; the mitochondrial flag is the prefix \<^verbatim>\<open>mt-\<close> and the
  ribosomal flag and percentage are those of the prefixes \<^verbatim>\<open>Rps\<close> and \<^verbatim>\<open>Rpl\<close>; the first
  plot was asked for the top 20 genes; and the function continues with normalization to
  the target 1000, \<^verbatim>\<open>log1p\<close>, variable-gene selection with the bounds 0.0125 (that is
  1/80), 3 and 0.5, regression on three named columns, and scaling.
\<close>

theorem BasicFiltering_fixed_thresholds:
  assumes "length (X a) = n_obs a" and "BasicFiltering_qc lib a = Inr r"
  shows "zip (obs_names (obs r)) (X r)
           = filter (\<lambda>(name, row). count_nonzero row < 5000 \<and> 200 < count_nonzero row \<and>
                 flt (pct_counts (map (\<lambda>g. prefix ''mt-'' g)
                        (var_names (var (filter_cells 200 (filter_genes 3 a))))) row) 10)
               (zip (obs_names (obs (filter_cells 200 (filter_genes 3 a))))
                    (X (filter_cells 200 (filter_genes 3 a)))) \<and>
         X (filter_cells 200 (filter_genes 3 a))
           = filter (\<lambda>row. 200 \<le> length (filter (\<lambda>x. 0 < x) row)) (X (filter_genes 3 a)) \<and>
         var_names (var r) = var_names (var (filter_genes 3 a)) \<and>
         mt (var r) = Some (map (\<lambda>g. prefix ''mt-'' g) (var_names (var r))) \<and>
         ribo (var r) = Some (map (\<lambda>g. prefix ''Rps'' g \<or> prefix ''Rpl'' g) (var_names (var r))) \<and>
         pct_counts_ribo (obs r)
           = Some (map (pct_counts (map (\<lambda>g. prefix ''Rps'' g \<or> prefix ''Rpl'' g)
                    (var_names (var r)))) (X r)) \<and>
         pl_highest_expr_genes lib 20 a = Inr () \<and>
         BasicFiltering lib a =
           then_do (pp_log1p lib (normalize_per_cell 1000 r)) (\<lambda>a.
           then_do (pp_highly_variable_genes lib (1 / 80) 3 (1 / 2) a) (\<lambda>a.
           then_do (pp_regress_out lib [''total_counts'', ''pct_counts_mt'', ''pct_counts_ribo''] a)
             (pp_scale lib)))"
proof -
  let ?b = "filter_cells 200 (filter_genes 3 a)"
  note rows = BasicFiltering_qc_rows [OF assms]
  have var_r: "var r = var (set_mt_ribo ?b)"
    by (rule rows(3))
  have names_b: "var_names (var ?b) = var_names (var (filter_genes 3 a))"
    by (simp add: filter_cells_def Let_def subset_obs_columns)
  have names_r: "var_names (var r) = var_names (var ?b)"
    by (simp add: var_r set_mt_ribo_def)
  have flags: "mt (var r) = Some (map (\<lambda>g. prefix ''mt-'' g) (var_names (var r)))"
    "ribo (var r) = Some (map (\<lambda>g. prefix ''Rps'' g \<or> prefix ''Rpl'' g) (var_names (var r)))"
    by (simp_all add: var_r set_mt_ribo_def)
  have ribo_pct: "pct_counts_ribo (obs r)
      = Some (map (pct_counts (map (\<lambda>g. prefix ''Rps'' g \<or> prefix ''Rpl'' g)
          (var_names (var r)))) (X r))"
    unfolding names_r by (rule rows(4))
  have tail: "BasicFiltering lib a =
           then_do (pp_log1p lib (normalize_per_cell 1000 r)) (\<lambda>a.
           then_do (pp_highly_variable_genes lib (1 / 80) 3 (1 / 2) a) (\<lambda>a.
           then_do (pp_regress_out lib [''total_counts'', ''pct_counts_mt'', ''pct_counts_ribo''] a)
             (pp_scale lib)))"
    by (simp add: BasicFiltering_def assms(2) then_do_def regress_keys_def)
  show ?thesis
    using rows(1) rows(5) flags ribo_pct tail
    by (simp only: names_r names_b X_filter_cells simp_thms)
qed

text \<open>
  On the example with 201 genes the filtering part returns and keeps one cell of three:
  all three pass the bounds on the gene count, and the percentages 40/240 and 100/300
  are not below 10. Normalization then brings the surviving row to the total 1000.
\<close>

theorem BasicFiltering_fixed_thresholds_witness:
  "length (X example_big) = n_obs example_big \<and>
   (\<exists>r. BasicFiltering_qc example_lib example_big = Inr r \<and>
      zip (obs_names (obs r)) (X r) = [(''AAAC'', 10 # replicate 200 1)] \<and>
      BasicFiltering example_lib example_big = Inr (normalize_per_cell 1000 r) \<and>
      map sum_list (X (normalize_per_cell 1000 r)) = [1000])"
proof -
  have len: "length (X example_big) = n_obs example_big"
    by (simp add: example_big_def n_obs_def)
  from example_big_run [OF refl refl refl]
  obtain r where run: "BasicFiltering_qc example_lib example_big = Inr r"
    and names: "obs_names (obs r) = [''AAAC'']" and Xr: "X r = [10 # replicate 200 1]"
    by blast
  from BasicFiltering_fixed_thresholds [OF len run]
  have "BasicFiltering example_lib example_big =
           then_do (pp_log1p example_lib (normalize_per_cell 1000 r)) (\<lambda>a.
           then_do (pp_highly_variable_genes example_lib (1 / 80) 3 (1 / 2) a) (\<lambda>a.
           then_do (pp_regress_out example_lib [''total_counts'', ''pct_counts_mt'', ''pct_counts_ribo''] a)
             (pp_scale example_lib)))"
    by blast
  then have tail: "BasicFiltering example_lib example_big = Inr (normalize_per_cell 1000 r)"
    by (simp add: example_lib_def then_do_def)
  have sums: "map sum_list (X (normalize_per_cell 1000 r)) = [1000]"
    by (simp add: X_normalize_per_cell Xr sum_list_normalize_row sum_list_replicate)
  from run names Xr tail sums
  have "\<exists>r. BasicFiltering_qc example_lib example_big = Inr r \<and>
      zip (obs_names (obs r)) (X r) = [(''AAAC'', 10 # replicate 200 1)] \<and>
      BasicFiltering example_lib example_big = Inr (normalize_per_cell 1000 r) \<and>
      map sum_list (X (normalize_per_cell 1000 r)) = [1000]"
    by auto
  with len show ?thesis ..
qed

text \<open>
  The cell \<^verbatim>\<open>AAAG\<close> of the example has 40 of its 240 counts on the mitochondrial gene. A
  caller of the specified filter who supplies the cutoff 20 keeps it; the code has no
  parameter to supply the cutoff to and drops it, as the specified filter does with
  the default cutoff 10.
\<close>

theorem BasicFiltering_ignores_configuration_counterexample:
  "map_sum id (\<lambda>a. obs_names (obs a)) (QC_Filter_spec example_config example_big)
     = Inr [''AAAC'', ''AAAG''] \<and>
   map_sum id (\<lambda>a. obs_names (obs a)) (QC_Filter_spec default_config example_big)
     = Inr [''AAAC''] \<and>
   map_sum id (\<lambda>a. obs_names (obs a)) (BasicFiltering_qc example_lib example_big)
     = Inr [''AAAC'']"
proof -
  from example_big_run [OF refl refl refl]
  have "map_sum id (\<lambda>a. obs_names (obs a)) (BasicFiltering_qc example_lib example_big)
          = Inr [''AAAC'']"
    by auto
  with QC_Filter_spec_example_big show ?thesis
    by simp
qed

end
